theory Spec2Isabelle
  imports Complex_Main "HOL-Library.Log_Nat" "HOL-Library.Multiset"
begin

section \<open>Python values used by \<^verbatim>\<open>resize_image.py\<close>\<close>

subsection \<open>Exceptions\<close>

text \<open>
  The exceptions that can reach the \<^verbatim>\<open>except Exception\<close> clause of \<^verbatim>\<open>resize_image\<close> or
  escape from \<^verbatim>\<open>resize_image_dir\<close> and the main block. \<open>LibraryError\<close> stands for whatever
  OpenCV or the operating system raises (\<^verbatim>\<open>cv2.error\<close>, \<^verbatim>\<open>OSError\<close>, ...), with a description.
\<close>

datatype exn = AttributeError | ZeroDivisionError | OverflowError | ValueError | LibraryError string

definition bind_exn :: "exn + 'a \<Rightarrow> ('a \<Rightarrow> exn + 'b) \<Rightarrow> exn + 'b" where
  "bind_exn m f = (case m of Inl ex \<Rightarrow> Inl ex | Inr x \<Rightarrow> f x)"

subsection \<open>Floats: IEEE 754 binary64, round to nearest, ties to even\<close>

text \<open>
  A finite Python float is modelled by the rational number it denotes (the two zeros are
  identified; no operation of the program distinguishes them). \<open>ilog2 x\<close> is the binary
  exponent \<open>\<lfloor>log\<^sub>2 x\<rfloor>\<close> of a positive rational, computed from bit lengths.
\<close>

definition ilog2 :: "rat \<Rightarrow> int" where
  "ilog2 x = (if 1 \<le> x then bitlen \<lfloor>x\<rfloor> - 1 else - bitlen (\<lceil>1 / x\<rceil> - 1))"

definition round_half_even :: "rat \<Rightarrow> int" where
  "round_half_even q =
     (let f = \<lfloor>q\<rfloor>; r = q - of_int f
      in if r < 1 / 2 then f else if 1 / 2 < r then f + 1 else if even f then f else f + 1)"

text \<open>Rounding to the nearest multiple of \<open>2\<^sup>p\<close>.\<close>

definition round_to_grid :: "int \<Rightarrow> rat \<Rightarrow> rat" where
  "round_to_grid p x = of_int (round_half_even (x / 2 powi p)) * 2 powi p"

text \<open>
  The spacing of binary64 numbers around \<open>x\<close>: 53 significant bits in the normal range,
  the fixed spacing \<open>2\<^sup>-\<^sup>1\<^sup>0\<^sup>7\<^sup>4\<close> in the subnormal range.
\<close>

definition fl_exp :: "rat \<Rightarrow> int" where
  "fl_exp x = max (ilog2 \<bar>x\<bar> - 52) (- 1074)"

definition fl_round :: "rat \<Rightarrow> rat" where
  "fl_round x = (if x = 0 then 0 else round_to_grid (fl_exp x) x)"

datatype pyfloat = Finite rat | PosInf | NegInf | NaN

text \<open>The result of an arithmetic operation: rounded, and infinite from \<open>2\<^sup>1\<^sup>0\<^sup>2\<^sup>4\<close> on.\<close>

definition fl_result :: "rat \<Rightarrow> pyfloat" where
  "fl_result x =
     (let r = fl_round x
      in if r = 0 \<or> ilog2 \<bar>r\<bar> < 1024 then Finite r else if 0 < r then PosInf else NegInf)"

text \<open>\<^verbatim>\<open>float(n)\<close>, also the implicit conversion of an \<^verbatim>\<open>int\<close> operand of \<^verbatim>\<open>/\<close> and \<^verbatim>\<open>*\<close>.\<close>

definition float_of_int :: "int \<Rightarrow> exn + pyfloat" where
  "float_of_int n =
     (case fl_result (of_int n) of Finite r \<Rightarrow> Inr (Finite r) | _ \<Rightarrow> Inl OverflowError)"

fun float_neg :: "pyfloat \<Rightarrow> pyfloat" where
  "float_neg (Finite x) = Finite (- x)"
| "float_neg PosInf = NegInf"
| "float_neg NegInf = PosInf"
| "float_neg NaN = NaN"

fun float_mul :: "pyfloat \<Rightarrow> pyfloat \<Rightarrow> pyfloat" where
  "float_mul (Finite x) (Finite y) = fl_result (x * y)"
| "float_mul NaN b = NaN"
| "float_mul a NaN = NaN"
| "float_mul (Finite x) b = (if x = 0 then NaN else if 0 < x then b else float_neg b)"
| "float_mul a (Finite y) = (if y = 0 then NaN else if 0 < y then a else float_neg a)"
| "float_mul a b = (if a = b then PosInf else NegInf)"

fun float_quot :: "pyfloat \<Rightarrow> pyfloat \<Rightarrow> pyfloat" where
  "float_quot (Finite x) (Finite y) = fl_result (x / y)"
| "float_quot NaN b = NaN"
| "float_quot a NaN = NaN"
| "float_quot (Finite x) b = Finite 0"
| "float_quot a (Finite y) = (if 0 < y then a else float_neg a)"
| "float_quot a b = NaN"

text \<open>\<^verbatim>\<open>a / b\<close> on floats: Python raises on a zero divisor before dividing.\<close>

definition float_truediv :: "pyfloat \<Rightarrow> pyfloat \<Rightarrow> exn + pyfloat" where
  "float_truediv a b = (if b = Finite 0 then Inl ZeroDivisionError else Inr (float_quot a b))"

definition trunc :: "rat \<Rightarrow> int" where
  "trunc x = (if 0 \<le> x then \<lfloor>x\<rfloor> else \<lceil>x\<rceil>)"

text \<open>\<^verbatim>\<open>int(x)\<close> on a float: truncation toward zero.\<close>

fun int_of_float :: "pyfloat \<Rightarrow> exn + int" where
  "int_of_float (Finite x) = Inr (trunc x)"
| "int_of_float NaN = Inl ValueError"
| "int_of_float a = Inl OverflowError"

subsection \<open>Strings and paths (\<^verbatim>\<open>posixpath\<close>)\<close>

type_synonym path = string

text \<open>\<^verbatim>\<open>s.rfind(c)\<close>: the index of the last occurrence of \<open>c\<close>, or \<open>-1\<close>.\<close>

fun rfind_from :: "char \<Rightarrow> string \<Rightarrow> int \<Rightarrow> int \<Rightarrow> int" where
  "rfind_from c [] i found = found"
| "rfind_from c (x # xs) i found = rfind_from c xs (i + 1) (if x = c then i else found)"

definition rfind :: "char \<Rightarrow> string \<Rightarrow> int" where
  "rfind c s = rfind_from c s 0 (- 1)"

text \<open>
  The loop of \<^verbatim>\<open>genericpath._splitext\<close> that skips leading dots: true when some character
  of the file name before the last dot is not a dot.
\<close>

function splitext_scan :: "string \<Rightarrow> nat \<Rightarrow> nat \<Rightarrow> bool" where
  "splitext_scan p filenameIndex dotIndex =
     (if filenameIndex < dotIndex
      then (if p ! filenameIndex \<noteq> CHR ''.'' then True
            else splitext_scan p (filenameIndex + 1) dotIndex)
      else False)"
  by pat_completeness auto
termination
  by (relation "measure (\<lambda>(p, i, d). d - i)") auto

declare splitext_scan.simps [simp del]

definition splitext :: "string \<Rightarrow> string \<times> string" where
  "splitext p =
     (let sepIndex = rfind CHR ''/'' p; dotIndex = rfind CHR ''.'' p
      in if dotIndex > sepIndex \<and> splitext_scan p (nat (sepIndex + 1)) (nat dotIndex)
         then (take (nat dotIndex) p, drop (nat dotIndex) p)
         else (p, []))"

text \<open>\<^verbatim>\<open>posixpath.join(a, b)\<close>.\<close>

definition join :: "path \<Rightarrow> string \<Rightarrow> path" where
  "join a b =
     (if b \<noteq> [] \<and> hd b = CHR ''/'' then b
      else if a = [] \<or> last a = CHR ''/'' then a @ b
      else a @ ''/'' @ b)"

text \<open>\<^verbatim>\<open>s.rstrip('/')\<close> and \<^verbatim>\<open>posixpath.dirname\<close>.\<close>

definition rstrip_sep :: "string \<Rightarrow> string" where
  "rstrip_sep s = rev (dropWhile (\<lambda>c. c = CHR ''/'') (rev s))"

definition dirname :: "path \<Rightarrow> path" where
  "dirname p =
     (let i = nat (rfind CHR ''/'' p + 1); head = take i p
      in if head \<noteq> [] \<and> head \<noteq> replicate (length head) CHR ''/'' then rstrip_sep head
         else head)"

text \<open>\<^verbatim>\<open>str(n)\<close> for the non-negative counters printed by the program.\<close>

function str_nat :: "nat \<Rightarrow> string" where
  "str_nat n =
     (if n < 10 then [''0123456789'' ! n]
      else str_nat (n div 10) @ [''0123456789'' ! (n mod 10)])"
  by pat_completeness auto
termination
  by (relation "measure id") auto

declare str_nat.simps [simp del]

section \<open>The environment: file system and OpenCV\<close>

text \<open>
  A decoded raster as \<^verbatim>\<open>cv2.imread\<close> returns it with its default flag: an array of shape
  \<open>(rows, cols, channels)\<close> and its pixel data.
\<close>

record image =
  rows :: nat
  cols :: nat
  channels :: nat
  pixels :: "nat list"

text \<open>
  What the program observes and does outside itself, in the order it happens: lines
  printed, and calls of the image library.
\<close>

datatype event =
    Print string
  | Call_imread path
  | Call_resize int int
  | Call_imwrite path

text \<open>
  The calls the program makes into \<^verbatim>\<open>os\<close>, \<^verbatim>\<open>os.path\<close>, \<^verbatim>\<open>cv2\<close> and
  \<^verbatim>\<open>concurrent.futures\<close> are parameters of the model, over a state \<open>'w\<close> of the outside
  world. A call that can raise returns a sum; a call that can change the world returns the
  new one. \<open>cv_imread\<close> returns \<open>None\<close> where OpenCV returns \<^verbatim>\<open>None\<close> (a file it cannot
  decode); \<open>cv_imwrite\<close> returns the boolean of \<^verbatim>\<open>cv2.imwrite\<close>, which the program
  discards. \<open>completion_order\<close> is the order in which the thread pool completes the
  submitted tasks, each task taken as one atomic step. \<open>exn_str\<close> is \<^verbatim>\<open>str(ex)\<close>, and
  \<open>parse_int\<close> is \<^verbatim>\<open>int(s)\<close> on a string.
\<close>

record 'w env =
  os_isfile :: "'w \<Rightarrow> path \<Rightarrow> bool"
  os_isdir :: "'w \<Rightarrow> path \<Rightarrow> bool"
  os_makedirs :: "'w \<Rightarrow> path \<Rightarrow> (exn + unit) \<times> 'w"
  os_listdir :: "'w \<Rightarrow> path \<Rightarrow> exn + string list"
  os_realpath :: "'w \<Rightarrow> path \<Rightarrow> path"
  cv_imread :: "'w \<Rightarrow> path \<Rightarrow> exn + image option"
  cv_resize :: "image \<Rightarrow> int \<times> int \<Rightarrow> exn + image"
  cv_imwrite :: "'w \<Rightarrow> path \<Rightarrow> image \<Rightarrow> (exn + bool) \<times> 'w"
  completion_order :: "(path \<times> path) list \<Rightarrow> (path \<times> path) list"
  exn_str :: "exn \<Rightarrow> string"
  parse_int :: "string \<Rightarrow> exn + int"

section \<open>The program\<close>

subsection \<open>\<^verbatim>\<open>resize_image\<close>\<close>

text \<open>
  Lines 43 to 49: the new size \<open>(w, h)\<close> from the decoded size and \<^verbatim>\<open>larger_edge\<close>.
  \<^verbatim>\<open>float(w) / h\<close> converts both operands; \<^verbatim>\<open>w / ratio\<close> and \<^verbatim>\<open>h * ratio\<close> convert
  \<^verbatim>\<open>larger_edge\<close>, to which \<^verbatim>\<open>w\<close> or \<^verbatim>\<open>h\<close> has just been assigned.
\<close>

definition scale_dims :: "int \<Rightarrow> int \<Rightarrow> int \<Rightarrow> exn + int \<times> int" where
  "scale_dims w h larger_edge =
     bind_exn (float_of_int w) (\<lambda>fw.
     bind_exn (float_of_int h) (\<lambda>fh.
     bind_exn (float_truediv fw fh) (\<lambda>ratio.
     if w > h then
       bind_exn (float_of_int larger_edge) (\<lambda>fe.
       bind_exn (float_truediv fe ratio) (\<lambda>q.
       bind_exn (int_of_float q) (\<lambda>h'. Inr (larger_edge, h'))))
     else
       bind_exn (float_of_int larger_edge) (\<lambda>fe.
       bind_exn (int_of_float (float_mul fe ratio)) (\<lambda>w'. Inr (w', larger_edge))))))"

text \<open>
  The body of the \<^verbatim>\<open>try\<close> block, lines 41 to 54. \<^verbatim>\<open>img.shape\<close> on \<^verbatim>\<open>None\<close> raises
  \<^verbatim>\<open>AttributeError\<close>.
\<close>

definition resize_try ::
  "'w env \<Rightarrow> 'w \<Rightarrow> path \<Rightarrow> path \<Rightarrow> int \<Rightarrow> (exn + unit) \<times> 'w \<times> event list" where
  "resize_try env w src_file_path dst_file_path larger_edge =
     (case cv_imread env w src_file_path of
        Inl ex \<Rightarrow> (Inl ex, w, [Call_imread src_file_path])
      | Inr None \<Rightarrow> (Inl AttributeError, w, [Call_imread src_file_path])
      | Inr (Some img) \<Rightarrow>
          (case scale_dims (int (cols img)) (int (rows img)) larger_edge of
             Inl ex \<Rightarrow> (Inl ex, w, [Call_imread src_file_path])
           | Inr (w', h') \<Rightarrow>
               (case cv_resize env img (w', h') of
                  Inl ex \<Rightarrow> (Inl ex, w, [Call_imread src_file_path, Call_resize w' h'])
                | Inr img' \<Rightarrow>
                    (case cv_imwrite env w dst_file_path img' of
                       (Inl ex, world') \<Rightarrow>
                         (Inl ex, world',
                          [Call_imread src_file_path, Call_resize w' h',
                           Call_imwrite dst_file_path])
                     | (Inr written, world') \<Rightarrow>
                         (Inr (), world',
                          [Call_imread src_file_path, Call_resize w' h',
                           Call_imwrite dst_file_path])))))"

definition resize_image ::
  "'w env \<Rightarrow> 'w \<Rightarrow> path \<Rightarrow> path \<Rightarrow> int \<Rightarrow> bool \<times> 'w \<times> event list" where
  "resize_image env w src_file_path dst_file_path larger_edge =
     (if \<not> os_isfile env w src_file_path
      then (False, w, [Print (''file not exist: '' @ src_file_path)])
      else
        (case resize_try env w src_file_path dst_file_path larger_edge of
           (Inr u, world', evs) \<Rightarrow> (True, world', evs)
         | (Inl ex, world', evs) \<Rightarrow>
             (False, world',
              evs @ [Print (''resize failed, file = '' @ src_file_path @ '', error = ''
                            @ exn_str env ex)])))"

subsection \<open>\<^verbatim>\<open>resize_image_dir\<close>\<close>

definition image_ext_set :: "string set" where
  "image_ext_set = {''.jpg'', ''.png'', ''.jpeg''}"

text \<open>The loop of lines 83 to 92 over the directory listing, appending to the list.\<close>

fun build_file_pair_list ::
  "'w env \<Rightarrow> 'w \<Rightarrow> path \<Rightarrow> path \<Rightarrow> string list \<Rightarrow> (path \<times> path) list
     \<Rightarrow> (path \<times> path) list" where
  "build_file_pair_list env w src_dir dst_dir [] file_pair_list = file_pair_list"
| "build_file_pair_list env w src_dir dst_dir (file_name # names) file_pair_list =
     (let ext = snd (splitext file_name)
      in if ext \<notin> image_ext_set
         then build_file_pair_list env w src_dir dst_dir names file_pair_list
         else
           let dst_file_path = join dst_dir file_name
           in if os_isfile env w dst_file_path
              then build_file_pair_list env w src_dir dst_dir names file_pair_list
              else build_file_pair_list env w src_dir dst_dir names
                     (file_pair_list @ [(join src_dir file_name, dst_file_path)]))"

text \<open>
  The submitted tasks, run one after the other in the given order; each returns the
  boolean of \<^verbatim>\<open>resize_image\<close>, which is the \<^verbatim>\<open>future.result()\<close> of line 106. The
  lines the tasks print come before those of the collecting loop: one of the orders in
  which the threads can interleave.
\<close>

fun run_tasks ::
  "'w env \<Rightarrow> 'w \<Rightarrow> int \<Rightarrow> (path \<times> path) list \<Rightarrow> bool list \<times> 'w \<times> event list" where
  "run_tasks env w larger_edge [] = ([], w, [])"
| "run_tasks env w larger_edge ((src_file_path, dst_file_path) # tasks) =
     (case resize_image env w src_file_path dst_file_path larger_edge of
        (ok, w1, evs1) \<Rightarrow>
          (case run_tasks env w1 larger_edge tasks of
             (oks, w2, evs2) \<Rightarrow> (ok # oks, w2, evs1 @ evs2)))"

text \<open>The loop of lines 105 to 112 over the results, in completion order.\<close>

fun collect_results :: "nat \<Rightarrow> bool list \<Rightarrow> nat \<times> nat \<Rightarrow> (nat \<times> nat) \<times> event list" where
  "collect_results n_total [] (ok_cnt, fail_cnt) = ((ok_cnt, fail_cnt), [])"
| "collect_results n_total (result # results) (ok_cnt, fail_cnt) =
     (if result then
        (case collect_results n_total results (ok_cnt + 1, fail_cnt) of
           (counts, evs) \<Rightarrow>
             (counts,
              (if (ok_cnt + 1) mod 1000 = 0
               then [Print (str_nat (ok_cnt + 1) @ ''/'' @ str_nat n_total @ '' ...'')]
               else []) @ evs))
      else
        (case collect_results n_total results (ok_cnt, fail_cnt + 1) of
           (counts, evs) \<Rightarrow> (counts, Print (''fail = '' @ str_nat (fail_cnt + 1)) # evs)))"

text \<open>Lines 77 and 78: the destination directory is created when it is not there.\<close>

definition ensure_dst_dir :: "'w env \<Rightarrow> 'w \<Rightarrow> path \<Rightarrow> (exn + unit) \<times> 'w" where
  "ensure_dst_dir env w dst_dir =
     (if \<not> os_isdir env w dst_dir then os_makedirs env w dst_dir else (Inr (), w))"

text \<open>
  An exception of \<^verbatim>\<open>os.makedirs\<close> or \<^verbatim>\<open>os.listdir\<close> is not caught: it leaves the
  function. The progress bar that \<^verbatim>\<open>tqdm\<close> draws on the error stream is not among the
  events.
\<close>

definition resize_image_dir ::
  "'w env \<Rightarrow> 'w \<Rightarrow> path \<Rightarrow> path \<Rightarrow> int \<Rightarrow> (exn + bool) \<times> 'w \<times> event list" where
  "resize_image_dir env w src_dir dst_dir larger_edge =
     (if \<not> os_isdir env w src_dir
      then (Inr False, w, [Print (''dir not exist: '' @ src_dir)])
      else
        (case ensure_dst_dir env w dst_dir of
           (Inl ex, w1) \<Rightarrow> (Inl ex, w1, [])
         | (Inr u, w1) \<Rightarrow>
             (case os_listdir env w1 src_dir of
                Inl ex \<Rightarrow> (Inl ex, w1, [])
              | Inr names \<Rightarrow>
                  (let file_pair_list = build_file_pair_list env w1 src_dir dst_dir names []
                   in if file_pair_list = []
                      then (Inr True, w1, [Print ''no image to resize''])
                      else
                        (case run_tasks env w1 larger_edge
                                (completion_order env file_pair_list) of
                           (results, w2, evs) \<Rightarrow>
                             (case collect_results (length file_pair_list) results (0, 0) of
                                ((ok_cnt, fail_cnt), evs') \<Rightarrow>
                                  (Inr True, w2,
                                   [Print (''total image file num = ''
                                           @ str_nat (length file_pair_list) @ '', action!'')]
                                   @ evs @ evs'
                                   @ [Print (''finished, ok = '' @ str_nat ok_cnt
                                             @ '', fail = '' @ str_nat fail_cnt)])))))))"

subsection \<open>The main block\<close>

text \<open>
  Lines 119 to 126, for the argument vector \<^verbatim>\<open>sys.argv\<close> (the script name first) and the
  script path \<^verbatim>\<open>__file__\<close>. Unpacking \<^verbatim>\<open>sys.argv[1:4]\<close> into three names raises
  \<^verbatim>\<open>ValueError\<close> unless the slice has three elements.
\<close>

definition main ::
  "'w env \<Rightarrow> 'w \<Rightarrow> string list \<Rightarrow> path \<Rightarrow> (exn + unit) \<times> 'w \<times> event list" where
  "main env w argv file =
     (if length argv < 3
      then (Inr (), w,
            [Print ''usage: python resize_image.py src_dir dst_dir larger_edge'',
             Print (''e.g. python resize_image.py /tmp/images ''
                    @ os_realpath env w (join (dirname file) ''small_image'') @ '' 160'')])
      else
        (case take 3 (drop 1 argv) of
           [src_dir, dst_dir, larger_edge] \<Rightarrow>
             (case parse_int env larger_edge of
                Inl ex \<Rightarrow> (Inl ex, w, [])
              | Inr n \<Rightarrow>
                  (case resize_image_dir env w src_dir dst_dir n of
                     (Inl ex, w', evs) \<Rightarrow> (Inl ex, w', evs)
                   | (Inr ok, w', evs) \<Rightarrow> (Inr (), w', evs)))
         | _ \<Rightarrow> (Inl ValueError, w, [])))"

section \<open>The specification's tolerance, and an environment to run the model in\<close>

text \<open>
  The truncation tolerance of the specification, in its words: the aspect ratio of the
  output differs from that of the source by at most one over the smaller new edge.
\<close>

definition spec_aspect_tolerance :: "int \<Rightarrow> int \<Rightarrow> int \<Rightarrow> int \<Rightarrow> bool" where
  "spec_aspect_tolerance w h new_w new_h \<longleftrightarrow>
     \<bar>rat_of_int new_w / of_int new_h - of_int w / of_int h\<bar> \<le> 1 / of_int (min new_w new_h)"

text \<open>
  A small file system: regular files with the raster they decode to (\<open>None\<close> when the
  content is not an image), directories, and the listing of each directory. Writing an
  image adds the file, unless the path is a directory; resizing raises on an empty size.
  The tasks complete in the reverse of the order of submission.
\<close>

record demo_world =
  files :: "(path \<times> image option) list"
  dirs :: "path list"
  listing :: "(path \<times> string list) list"

definition demo_exn_str :: "exn \<Rightarrow> string" where
  "demo_exn_str ex =
     (case ex of
        AttributeError \<Rightarrow> ''no attribute shape''
      | ZeroDivisionError \<Rightarrow> ''division by zero''
      | OverflowError \<Rightarrow> ''overflow''
      | ValueError \<Rightarrow> ''value error''
      | LibraryError s \<Rightarrow> s)"

definition demo_env :: "demo_world env" where
  "demo_env =
     \<lparr> os_isfile = (\<lambda>w p. map_of (files w) p \<noteq> None),
       os_isdir = (\<lambda>w p. p \<in> set (dirs w)),
       os_makedirs = (\<lambda>w p. (Inr (), w\<lparr>dirs := p # dirs w\<rparr>)),
       os_listdir = (\<lambda>w p. case map_of (listing w) p of
                               None \<Rightarrow> Inl (LibraryError ''not a directory'')
                             | Some names \<Rightarrow> Inr names),
       os_realpath = (\<lambda>w p. p),
       cv_imread = (\<lambda>w p. Inr (case map_of (files w) p of Some (Some img) \<Rightarrow> Some img
                                                          | _ \<Rightarrow> None)),
       cv_resize = (\<lambda>img (w, h). if w \<le> 0 \<or> h \<le> 0 then Inl (LibraryError ''empty size'')
                                  else Inr (img\<lparr>rows := nat h, cols := nat w\<rparr>)),
       cv_imwrite = (\<lambda>w p img. if p \<in> set (dirs w) then (Inr False, w)
                                else (Inr True, w\<lparr>files := (p, Some img) # files w\<rparr>)),
       completion_order = rev,
       exn_str = demo_exn_str,
       parse_int = (\<lambda>s. if s = ''160'' then Inr 160 else Inl ValueError) \<rparr>"

definition demo_image :: "nat \<Rightarrow> nat \<Rightarrow> image" where
  "demo_image w h = \<lparr> rows = h, cols = w, channels = 3, pixels = [] \<rparr>"

text \<open>
  The source directory of the specification's scenario (\<^verbatim>\<open>a.jpg\<close> of 200 by 100,
  \<^verbatim>\<open>b.png\<close> of 100 by 200, \<^verbatim>\<open>notes.txt\<close>), with a file that is not an image, two
  subdirectories and an upper-case extension beside them.
\<close>

definition demo_world0 :: demo_world where
  "demo_world0 =
     \<lparr> files = [(''/tmp/images/a.jpg'', Some (demo_image 200 100)),
                (''/tmp/images/b.png'', Some (demo_image 100 200)),
                (''/tmp/images/notes.txt'', None),
                (''/tmp/images/c.jpeg'', None),
                (''/tmp/images/e.JPG'', Some (demo_image 64 48))],
       dirs = [''/tmp/images'', ''/tmp/images/d.jpg'', ''/tmp/images/.jpg''],
       listing = [(''/tmp/images'',
                   [''a.jpg'', ''b.png'', ''notes.txt'', ''c.jpeg'', ''d.jpg'', ''.jpg'',
                    ''e.JPG''])] \<rparr>"




section \<open>Properties of the float model\<close>

subsection \<open>Binary exponent and rounding to an integer\<close>

lemma ilog2_ge1:
  assumes "1 \<le> x"
  shows "2 powi (ilog2 x) \<le> x \<and> x < 2 powi (ilog2 x + 1)"
proof -
  let ?n = "nat \<lfloor>x\<rfloor>"
  let ?k = "floorlog 2 ?n"
  have n: "0 < ?n" using assms by simp
  have b: "2 ^ (?k - 1) \<le> ?n \<and> ?n < 2 ^ ?k"
    using floorlog_bounds[of ?n 2] n by simp
  have k: "0 < ?k" using n by (simp add: floorlog_eq_zero_iff Suc_le_eq not_le[symmetric])
  have e: "ilog2 x = int ?k - 1" using assms by (simp add: ilog2_def bitlen_def)
  have e': "ilog2 x = int (?k - 1)" using e k by simp
  have "(2::rat) ^ (?k - 1) \<le> of_nat ?n"
    using b by (metis of_nat_le_iff of_nat_numeral of_nat_power)
  also have "\<dots> \<le> x" using assms by (simp add: of_nat_nat)
  finally have lo: "2 powi (ilog2 x) \<le> x" unfolding e' by simp
  have "\<lfloor>x\<rfloor> < 2 ^ ?k" using b n by (simp add: nat_less_iff)
  then have "x < of_int (2 ^ ?k)" by (simp only: floor_less_iff)
  then have hi: "x < 2 powi (ilog2 x + 1)" unfolding e by simp
  show ?thesis using lo hi by simp
qed

lemma ilog2_lt1:
  assumes "0 < x" "x < 1"
  shows "2 powi (ilog2 x) \<le> x \<and> x < 2 powi (ilog2 x + 1)"
proof -
  let ?y = "1 / x"
  let ?n = "nat (\<lceil>?y\<rceil> - 1)"
  let ?k = "floorlog 2 ?n"
  have y: "1 < ?y" using assms by simp
  then have c: "2 \<le> \<lceil>?y\<rceil>" by (simp add: le_ceiling_iff)
  then have n: "0 < ?n" by simp
  have b: "2 ^ (?k - 1) \<le> ?n \<and> ?n < 2 ^ ?k"
    using floorlog_bounds[of ?n 2] n by simp
  have k: "0 < ?k" using n by (simp add: floorlog_eq_zero_iff Suc_le_eq not_le[symmetric])
  have e: "ilog2 x = - int ?k" using assms by (simp add: ilog2_def bitlen_def)
  have "int ?n < 2 ^ ?k" using b by (metis of_nat_less_iff of_nat_numeral of_nat_power)
  then have "\<lceil>?y\<rceil> \<le> 2 ^ ?k" using c assms by simp
  then have "?y \<le> of_int (2 ^ ?k)" by (simp only: ceiling_le_iff)
  then have "?y \<le> 2 ^ ?k" by simp
  then have "1 \<le> 2 ^ ?k * x" using assms by (simp add: field_simps)
  then have lo: "2 powi (ilog2 x) \<le> x"
    unfolding e by (simp add: power_int_minus field_simps)
  have "2 ^ (?k - 1) \<le> int ?n" using b by (metis of_nat_le_iff of_nat_numeral of_nat_power)
  then have "2 ^ (?k - 1) < \<lceil>?y\<rceil>" using c assms by simp
  then have "of_int (2 ^ (?k - 1)) < ?y" by (simp only: less_ceiling_iff)
  then have "2 ^ (?k - 1) < ?y" by simp
  then have "2 ^ (?k - 1) * x < 1" using assms by (simp add: field_simps)
  moreover have "ilog2 x + 1 = - int (?k - 1)" using e k by simp
  ultimately have hi: "x < 2 powi (ilog2 x + 1)"
    by (simp add: power_int_minus field_simps)
  show ?thesis using lo hi by simp
qed

lemma ilog2_bounds:
  "0 < x \<Longrightarrow> 2 powi (ilog2 x) \<le> x \<and> x < 2 powi (ilog2 x + 1)"
  using ilog2_ge1[of x] ilog2_lt1[of x] by (cases "1 \<le> x") auto

lemma ilog2_ge: 
  assumes "0 < x" "2 powi e \<le> x" shows "e \<le> ilog2 x"
proof (rule ccontr)
  assume "\<not> e \<le> ilog2 x"
  then have "ilog2 x + 1 \<le> e" by simp
  then have "(2::rat) powi (ilog2 x + 1) \<le> 2 powi e"
    by (intro power_int_increasing) auto
  then show False using ilog2_bounds[OF assms(1)] assms(2) by linarith
qed

lemma ilog2_le: 
  assumes "0 < x" "x < 2 powi (e + 1)" shows "ilog2 x \<le> e"
proof (rule ccontr)
  assume "\<not> ilog2 x \<le> e"
  then have "e + 1 \<le> ilog2 x" by simp
  then have "(2::rat) powi (e + 1) \<le> 2 powi (ilog2 x)"
    by (intro power_int_increasing) auto
  then show False using ilog2_bounds[OF assms(1)] assms(2) by linarith
qed

lemma ilog2_mono: "0 < x \<Longrightarrow> x \<le> y \<Longrightarrow> ilog2 x \<le> ilog2 y"
  using ilog2_bounds[of x] ilog2_ge[of y "ilog2 x"] by auto

lemma round_half_even_cases:
  "round_half_even q = \<lfloor>q\<rfloor> \<or> round_half_even q = \<lfloor>q\<rfloor> + 1"
  by (simp add: round_half_even_def Let_def)

lemma round_half_even_err: "\<bar>of_int (round_half_even q) - q\<bar> \<le> 1 / 2"
proof -
  have "of_int \<lfloor>q\<rfloor> \<le> q" "q < of_int \<lfloor>q\<rfloor> + 1" by linarith+
  then show ?thesis
    by (auto simp: round_half_even_def Let_def abs_le_iff)
qed

lemma round_half_even_of_int [simp]: "round_half_even (of_int n) = n"
  by (simp add: round_half_even_def Let_def)

lemma round_half_even_mono:
  assumes "q \<le> q'" shows "round_half_even q \<le> round_half_even q'"
proof (cases "\<lfloor>q\<rfloor> = \<lfloor>q'\<rfloor>")
  case True
  then show ?thesis using assms
    by (auto simp: round_half_even_def Let_def)
next
  case False
  then have "\<lfloor>q\<rfloor> + 1 \<le> \<lfloor>q'\<rfloor>" using floor_mono[OF assms] by linarith
  moreover have "round_half_even q \<le> \<lfloor>q\<rfloor> + 1" using round_half_even_cases[of q] by auto
  moreover have "\<lfloor>q'\<rfloor> \<le> round_half_even q'" using round_half_even_cases[of q'] by auto
  ultimately show ?thesis by linarith
qed

lemma round_half_even_le: "q \<le> of_int n \<Longrightarrow> round_half_even q \<le> n"
  using round_half_even_mono[of q "of_int n"] by simp

lemma round_half_even_ge: "of_int n \<le> q \<Longrightarrow> n \<le> round_half_even q"
  using round_half_even_mono[of "of_int n" q] by simp


lemma round_half_even_minus: "round_half_even (- q) = - round_half_even q"
proof (cases "q = of_int \<lfloor>q\<rfloor>")
  case True
  then obtain n where "q = of_int n" ..
  then have "- q = of_int (- n)" by simp
  then show ?thesis using \<open>q = of_int n\<close> by (simp only: round_half_even_of_int)
next
  case False
  then have lt: "of_int \<lfloor>q\<rfloor> < q" by linarith
  have "q < of_int \<lfloor>q\<rfloor> + 1" by linarith
  then have f: "\<lfloor>- q\<rfloor> = - \<lfloor>q\<rfloor> - 1" using lt by (intro floor_unique) auto
  show ?thesis using lt
    by (auto simp: round_half_even_def Let_def f)
qed

lemma round_to_grid_minus: "round_to_grid p (- x) = - round_to_grid p x"
  by (simp add: round_to_grid_def round_half_even_minus)

lemma fl_round_minus: "fl_round (- x) = - fl_round x"
  by (simp add: fl_round_def fl_exp_def round_to_grid_minus)

lemma round_to_grid_le:
  assumes "x \<le> of_int m * 2 powi p"
  shows "round_to_grid p x \<le> of_int m * 2 powi p"
proof -
  have pos: "(0::rat) < 2 powi p" by simp
  have "x / 2 powi p \<le> of_int m" using assms pos by (simp add: field_simps)
  then have "round_half_even (x / 2 powi p) \<le> m" by (rule round_half_even_le)
  then have "(of_int (round_half_even (x / 2 powi p)) :: rat) \<le> of_int m" by simp
  then show ?thesis unfolding round_to_grid_def using pos by (simp add: mult_right_mono)
qed

lemma round_to_grid_ge:
  assumes "of_int m * 2 powi p \<le> x"
  shows "of_int m * 2 powi p \<le> round_to_grid p x"
proof -
  have pos: "(0::rat) < 2 powi p" by simp
  have "of_int m \<le> x / 2 powi p" using assms pos by (simp add: field_simps)
  then have "m \<le> round_half_even (x / 2 powi p)" by (rule round_half_even_ge)
  then have "(of_int m :: rat) \<le> of_int (round_half_even (x / 2 powi p))" by simp
  then show ?thesis unfolding round_to_grid_def using pos by (simp add: mult_right_mono)
qed

lemma round_to_grid_mono: "x \<le> y \<Longrightarrow> round_to_grid p x \<le> round_to_grid p y"
  unfolding round_to_grid_def
  by (intro mult_right_mono) (auto intro!: round_half_even_mono divide_right_mono)

lemma round_to_grid_exact: "round_to_grid p (of_int m * 2 powi p) = of_int m * 2 powi p"
  by (simp add: round_to_grid_def)

lemma round_to_grid_err: "\<bar>round_to_grid p x - x\<bar> \<le> 2 powi p / 2"
proof -
  have pos: "(0::rat) < 2 powi p" by simp
  have "round_to_grid p x - x = (of_int (round_half_even (x / 2 powi p)) - x / 2 powi p) * 2 powi p"
    using pos by (simp add: round_to_grid_def field_simps)
  then have "\<bar>round_to_grid p x - x\<bar> = \<bar>of_int (round_half_even (x / 2 powi p)) - x / 2 powi p\<bar> * 2 powi p"
    using pos by (simp add: abs_mult)
  also have "\<dots> \<le> (1 / 2) * 2 powi p"
    by (intro mult_right_mono round_half_even_err) simp
  finally show ?thesis by simp
qed

lemma pow2_on_grid:
  assumes "p \<le> e"
  shows "(2::rat) powi e = of_int (2 ^ nat (e - p)) * 2 powi p"
proof -
  have "(2::rat) powi e = 2 powi (e - p) * 2 powi p"
    by (simp add: power_int_add[symmetric])
  also have "(2::rat) powi (e - p) = 2 ^ nat (e - p)"
    using assms by (simp add: power_int_nonneg_exp)
  finally show ?thesis by simp
qed

lemma fl_round_pos: "0 < x \<Longrightarrow> fl_round x = round_to_grid (fl_exp x) x"
  by (simp add: fl_round_def fl_exp_def)

lemma fl_round_mono_pos:
  assumes "0 < x" "x \<le> y"
  shows "fl_round x \<le> fl_round y"
proof -
  have y: "0 < y" using assms by simp
  let ?ex = "ilog2 x" and ?ey = "ilog2 y"
  have ee: "?ex \<le> ?ey" using assms by (rule ilog2_mono)
  have ax: "\<bar>x\<bar> = x" "\<bar>y\<bar> = y" using assms by simp_all
  have pp: "fl_exp x \<le> fl_exp y" using ee by (simp add: fl_exp_def ax)
  show ?thesis
  proof (cases "fl_exp x = fl_exp y")
    case True
    then show ?thesis using assms y by (simp add: fl_round_pos round_to_grid_mono)
  next
    case False
    then have lt: "fl_exp x < fl_exp y" using pp by simp
    then have py: "fl_exp y = ?ey - 52" and exy: "?ex + 1 \<le> ?ey"
      by (auto simp: fl_exp_def ax)
    have px: "fl_exp x \<le> ?ey" using lt py by simp
    let ?G = "(2::rat) powi ?ey"
    have "x < 2 powi (?ex + 1)" using ilog2_bounds[OF assms(1)] by simp
    also have "\<dots> \<le> ?G" using exy by (intro power_int_increasing) auto
    finally have xG: "x \<le> ?G" by simp
    have Gy: "?G \<le> y" using ilog2_bounds[OF y] by simp
    have "round_to_grid (fl_exp x) x \<le> ?G"
      using round_to_grid_le[of x "2 ^ nat (?ey - fl_exp x)" "fl_exp x"] xG
      by (simp only: pow2_on_grid[OF px, symmetric])
    moreover have "?G \<le> round_to_grid (fl_exp y) y"
    proof -
      have le: "fl_exp y \<le> ?ey" using py by simp
      show ?thesis
        using round_to_grid_ge[of "2 ^ nat (?ey - fl_exp y)" "fl_exp y" y] Gy
        by (simp only: pow2_on_grid[OF le, symmetric])
    qed
    ultimately show ?thesis using assms y by (simp add: fl_round_pos)
  qed
qed

lemma fl_round_nonneg: "0 \<le> x \<Longrightarrow> 0 \<le> fl_round x"
  using round_to_grid_ge[of 0 _ x] by (simp add: fl_round_def)

lemma fl_round_mono:
  assumes "x \<le> y" shows "fl_round x \<le> fl_round y"
proof -
  consider "0 < x" | "x \<le> 0" "0 \<le> y" | "y < 0" by linarith
  then show ?thesis
  proof cases
    case 1
    then show ?thesis using assms by (rule fl_round_mono_pos)
  next
    case 2
    have "0 \<le> fl_round (- x)" using 2 by (intro fl_round_nonneg) simp
    then have "fl_round x \<le> 0" by (simp add: fl_round_minus)
    then show ?thesis using fl_round_nonneg[OF 2(2)] by simp
  next
    case 3
    have "fl_round (- y) \<le> fl_round (- x)" using 3 assms by (intro fl_round_mono_pos) auto
    then show ?thesis by (simp add: fl_round_minus)
  qed
qed


lemma fl_round_exact:
  assumes "x = of_int m * 2 powi q" "fl_exp x \<le> q"
  shows "fl_round x = x"
proof (cases "x = 0")
  case True
  then show ?thesis by (simp add: fl_round_def)
next
  case False
  let ?p = "fl_exp x"
  have "(2::rat) powi q = of_int (2 ^ nat (q - ?p)) * 2 powi ?p"
    using assms(2) by (rule pow2_on_grid)
  then have "x = of_int (m * 2 ^ nat (q - ?p)) * 2 powi ?p"
    using assms(1) by simp
  then have "round_to_grid ?p x = x"
    using round_to_grid_exact[of ?p "m * 2 ^ nat (q - ?p)"] by simp
  then show ?thesis using False by (simp add: fl_round_def fl_exp_def)
qed

lemma fl_round_of_int:
  assumes "\<bar>n\<bar> \<le> 2 ^ 53"
  shows "fl_round (of_int n) = of_int n"
proof (cases "\<bar>n\<bar> = 2 ^ 53")
  case True
  have "\<bar>rat_of_int n\<bar> = 2 powi 53" using True by (simp flip: of_int_abs)
  then have "ilog2 \<bar>rat_of_int n\<bar> \<le> 53"
    by (intro ilog2_le) (auto intro: power_int_strict_increasing)
  then have p: "fl_exp (of_int n) \<le> 1" by (simp add: fl_exp_def)
  have "n = 2 ^ 52 * 2 \<or> n = - (2 ^ 52) * 2" using True by (auto simp: abs_if split: if_splits)
  then have "rat_of_int n = of_int (n div 2) * 2 powi 1" by auto
  then show ?thesis using p by (rule fl_round_exact)
next
  case False
  show ?thesis
  proof (cases "n = 0")
    case True
    then show ?thesis by (simp add: fl_round_def)
  next
    case n0: False
    have "\<bar>n\<bar> < 2 ^ 53" using assms False by simp
    then have "rat_of_int \<bar>n\<bar> < of_int (2 ^ 53)" by (simp only: of_int_less_iff)
    then have "\<bar>rat_of_int n\<bar> < 2 powi (52 + 1)" by simp
    moreover have "0 < \<bar>rat_of_int n\<bar>" using n0 by simp
    ultimately have "ilog2 \<bar>rat_of_int n\<bar> \<le> 52" by (intro ilog2_le)
    then have p: "fl_exp (of_int n) \<le> 0" by (simp add: fl_exp_def)
    have "rat_of_int n = of_int n * 2 powi 0" by simp
    then show ?thesis using p by (rule fl_round_exact)
  qed
qed

lemma fl_round_rel_err:
  assumes "2 powi (- 1022) \<le> \<bar>x\<bar>"
  shows "\<bar>fl_round x - x\<bar> \<le> \<bar>x\<bar> / 2 ^ 53"
proof -
  have "(0::rat) < 2 powi (- 1022)" by (rule zero_less_power_int) simp
  then have pos: "0 < \<bar>x\<bar>" using assms by linarith
  then have x0: "x \<noteq> 0" by simp
  let ?e = "ilog2 \<bar>x\<bar>"
  have "- 1022 \<le> ?e" using pos assms by (rule ilog2_ge)
  then have p: "fl_exp x = ?e - 52" by (simp add: fl_exp_def)
  have "\<bar>fl_round x - x\<bar> \<le> 2 powi (?e - 52) / 2"
    using round_to_grid_err[of "?e - 52" x] x0 p by (simp add: fl_round_def fl_exp_def)
  also have "(2::rat) powi (?e - 52) / 2 = 2 powi ?e / 2 ^ 53"
    by (simp add: power_int_diff)
  also have "\<dots> \<le> \<bar>x\<bar> / 2 ^ 53"
    using ilog2_bounds[OF pos] by (simp add: divide_right_mono)
  finally show ?thesis .
qed

subsection \<open>Some values of the model\<close>

text \<open>
  The binary64 numbers nearest to one tenth and to one third, and the product
  \<open>49 * (1 / 49)\<close>, which is not one in binary64.
\<close>

lemma fl_round_tenth: "fl_round (1 / 10) = 3602879701896397 / 2 ^ 55"
  by code_simp

lemma fl_round_third: "fl_round (1 / 3) = 6004799503160661 / 2 ^ 54"
  by code_simp

lemma fl_round_49: "fl_round (49 * fl_round (1 / 49)) = 1 - 1 / 2 ^ 53"
  by code_simp

subsection \<open>Finite results and the size computation\<close>

lemma fl_result_finite:
  assumes "\<bar>fl_round x\<bar> < 2 powi 1024"
  shows "fl_result x = Finite (fl_round x)"
proof (cases "fl_round x = 0")
  case True
  then show ?thesis by (simp add: fl_result_def)
next
  case False
  then have "0 < \<bar>fl_round x\<bar>" by simp
  then have "ilog2 \<bar>fl_round x\<bar> \<le> 1023" using assms by (intro ilog2_le) simp_all
  then show ?thesis by (simp add: fl_result_def Let_def)
qed

lemma fl_round_abs_le:
  assumes "\<bar>x\<bar> \<le> of_int m" "m \<le> 2 ^ 53"
  shows "\<bar>fl_round x\<bar> \<le> of_int m"
proof -
  have m: "0 \<le> m" using assms(1) by (smt (verit) abs_ge_zero of_int_nonneg order_trans of_int_0_le_iff)
  then have am: "\<bar>m\<bar> \<le> 2 ^ 53" "\<bar>- m\<bar> \<le> 2 ^ 53" using assms(2) by simp_all
  have "x \<le> of_int m" "of_int (- m) \<le> x" using assms(1) by (simp_all add: abs_le_iff)
  then have "fl_round x \<le> fl_round (of_int m)" "fl_round (of_int (- m)) \<le> fl_round x"
    by (simp_all only: fl_round_mono)
  then have "fl_round x \<le> of_int m" "of_int (- m) \<le> fl_round x"
    by (simp_all only: fl_round_of_int[OF am(1)] fl_round_of_int[OF am(2)])
  then show ?thesis by (simp add: abs_le_iff)
qed

lemma small_lt_max: "m \<le> 2 ^ 53 \<Longrightarrow> rat_of_int m < 2 powi 1024"
proof -
  assume "m \<le> 2 ^ 53"
  then have "rat_of_int m \<le> of_int (2 ^ 53)" by (simp only: of_int_le_iff)
  also have "\<dots> = 2 powi 53" by simp
  also have "\<dots> < 2 powi 1024" by (intro power_int_strict_increasing) simp_all
  finally show ?thesis .
qed

lemma fl_result_small:
  assumes "\<bar>x\<bar> \<le> of_int m" "m \<le> 2 ^ 53"
  shows "fl_result x = Finite (fl_round x)"
  using fl_round_abs_le[OF assms] small_lt_max[OF assms(2)]
  by (intro fl_result_finite) linarith

lemma float_of_int_small:
  assumes "\<bar>n\<bar> \<le> 2 ^ 53"
  shows "float_of_int n = Inr (Finite (of_int n))"
proof -
  have "\<bar>rat_of_int n\<bar> \<le> of_int \<bar>n\<bar>" by simp
  then have "fl_result (of_int n) = Finite (fl_round (of_int n))"
    using assms by (rule fl_result_small)
  then show ?thesis by (simp add: float_of_int_def fl_round_of_int[OF assms])
qed

lemma div_ge1_le:
  fixes a b :: rat
  assumes "0 \<le> a" "1 \<le> b"
  shows "a / b \<le> a"
proof -
  have "a * 1 \<le> a * b" using assms by (intro mult_left_mono)
  then show ?thesis using assms by (simp add: field_simps)
qed

lemma abs_div_ge1_le:
  fixes a b :: rat
  assumes "1 \<le> b"
  shows "\<bar>a / b\<bar> \<le> \<bar>a\<bar>"
  using div_ge1_le[of "\<bar>a\<bar>" b] assms by simp

lemma ratio_bounds:
  assumes "0 \<le> w" "0 < h" "w \<le> 2 ^ 53"
  shows "0 \<le> fl_round (of_int w / of_int h)"
    and "fl_round (of_int w / of_int h) \<le> of_int w"
    and "h < w \<Longrightarrow> 1 \<le> fl_round (of_int w / of_int h)"
    and "w \<le> h \<Longrightarrow> fl_round (of_int w / of_int h) \<le> 1"
proof -
  let ?x = "rat_of_int w / of_int h"
  have h1: "1 \<le> rat_of_int h" using assms(2) by simp
  have w0: "0 \<le> rat_of_int w" using assms(1) by simp
  have x0: "0 \<le> ?x" using assms by simp
  show "0 \<le> fl_round ?x" using x0 by (rule fl_round_nonneg)
  have "?x \<le> of_int w" using w0 h1 by (rule div_ge1_le)
  then have "fl_round ?x \<le> fl_round (of_int w)" by (rule fl_round_mono)
  then show "fl_round ?x \<le> of_int w" using assms by (simp add: fl_round_of_int)
  have one: "fl_round 1 = 1" using fl_round_of_int[of 1] by simp
  { assume "h < w"
    then have "1 \<le> ?x" using assms(2) by simp
    then have "fl_round 1 \<le> fl_round ?x" by (rule fl_round_mono)
    then show "1 \<le> fl_round ?x" by (simp only: one) }
  { assume "w \<le> h"
    then have "?x \<le> 1" using assms(2) by simp
    then have "fl_round ?x \<le> fl_round 1" by (rule fl_round_mono)
    then show "fl_round ?x \<le> 1" by (simp only: one) }
qed

lemma round_half_even_abs_le:
  assumes "\<bar>q\<bar> \<le> of_int n"
  shows "\<bar>round_half_even q\<bar> \<le> n"
proof -
  have "q \<le> of_int n" "of_int (- n) \<le> q" using assms by (simp_all add: abs_le_iff)
  then have "round_half_even q \<le> n" "- n \<le> round_half_even q"
    by (simp_all only: round_half_even_le round_half_even_ge)
  then show ?thesis by (simp add: abs_le_iff)
qed

lemma mantissa_bound:
  assumes "x \<noteq> 0"
  shows "\<bar>round_half_even (x / 2 powi fl_exp x)\<bar> \<le> 2 ^ 53"
proof -
  let ?e = "ilog2 \<bar>x\<bar>" and ?p = "fl_exp x"
  have pos: "0 < \<bar>x\<bar>" using assms by simp
  have p: "?e - 52 \<le> ?p" by (simp add: fl_exp_def)
  have "\<bar>x\<bar> < 2 powi (?e + 1)" using ilog2_bounds[OF pos] by simp
  also have "\<dots> \<le> 2 powi (?p + 53)" using p by (intro power_int_increasing) simp_all
  also have "\<dots> = 2 powi ?p * 2 ^ 53" by (simp add: power_int_add)
  finally have "\<bar>x\<bar> / 2 powi ?p \<le> 2 ^ 53" by (simp add: field_simps)
  then have "\<bar>x / 2 powi ?p\<bar> \<le> of_int (2 ^ 53)" by (simp add: abs_divide)
  then show ?thesis by (rule round_half_even_abs_le)
qed

lemma fl_round_idem: "fl_round (fl_round x) = fl_round x"
proof (cases "x = 0")
  case True
  then show ?thesis by (simp add: fl_round_def)
next
  case False
  let ?p = "fl_exp x"
  define m where "m = round_half_even (x / 2 powi ?p)"
  have y: "fl_round x = of_int m * 2 powi ?p"
    using False by (simp add: fl_round_def round_to_grid_def m_def)
  have mb: "\<bar>m\<bar> \<le> 2 ^ 53" unfolding m_def using False by (rule mantissa_bound)
  have p74: "- 1074 \<le> ?p" by (simp add: fl_exp_def)
  show ?thesis
  proof (cases "\<bar>m\<bar> = 2 ^ 53")
    case True
    then have "m = 1 * 2 ^ 53 \<or> m = (- 1) * 2 ^ 53" by (auto simp: abs_if split: if_splits)
    then obtain s :: int where s: "m = s * 2 ^ 53" "\<bar>s\<bar> = 1" by fastforce
    have y': "fl_round x = of_int s * 2 powi (?p + 53)"
      unfolding y s(1) by (simp add: power_int_add)
    have "\<bar>fl_round x\<bar> = 2 powi (?p + 53)"
      unfolding y' using s(2) by (simp add: abs_mult flip: of_int_abs)
    then have "ilog2 \<bar>fl_round x\<bar> \<le> ?p + 53"
      by (intro ilog2_le) (simp_all add: power_int_strict_increasing)
    then have "fl_exp (fl_round x) \<le> ?p + 53" using p74 by (simp add: fl_exp_def)
    with y' show ?thesis by (rule fl_round_exact)
  next
    case ne: False
    show ?thesis
    proof (cases "m = 0")
      case True
      then have "fl_round x = 0" by (simp add: y)
      then show ?thesis by (simp add: fl_round_def)
    next
      case m0: False
      have "\<bar>m\<bar> < 2 ^ 53" using mb ne by simp
      then have "rat_of_int \<bar>m\<bar> < of_int (2 ^ 53)" by (simp only: of_int_less_iff)
      then have "\<bar>rat_of_int m\<bar> < 2 ^ 53" by simp
      then have "\<bar>rat_of_int m\<bar> * 2 powi ?p < 2 ^ 53 * 2 powi ?p"
        by (intro mult_strict_right_mono) simp_all
      also have "\<dots> = 2 powi (?p + 52 + 1)" by (simp add: power_int_add)
      finally have "\<bar>fl_round x\<bar> < 2 powi (?p + 52 + 1)" by (simp add: y abs_mult)
      moreover have "0 < \<bar>fl_round x\<bar>" using m0 by (simp add: y)
      ultimately have "ilog2 \<bar>fl_round x\<bar> \<le> ?p + 52" by (intro ilog2_le)
      then have "fl_exp (fl_round x) \<le> ?p" using p74 by (simp add: fl_exp_def)
      with y show ?thesis by (rule fl_round_exact)
    qed
  qed
qed

lemma float_of_int_FiniteD:
  assumes "float_of_int n = Inr (Finite fe)"
  shows "fe = fl_round (of_int n)" and "\<bar>fe\<bar> < 2 powi 1024" and "fl_round fe = fe"
proof -
  have r: "fl_result (of_int n) = Finite fe"
    using assms by (auto simp: float_of_int_def split: pyfloat.splits)
  then show fe: "fe = fl_round (of_int n)"
    by (auto simp: fl_result_def Let_def split: if_splits)
  show "\<bar>fe\<bar> < 2 powi 1024"
  proof (cases "fe = 0")
    case True
    then show ?thesis by simp
  next
    case False
    then have e: "ilog2 \<bar>fe\<bar> < 1024"
      using r fe by (auto simp: fl_result_def Let_def split: if_splits)
    have "0 < \<bar>fe\<bar>" using False by simp
    then have "\<bar>fe\<bar> < 2 powi (ilog2 \<bar>fe\<bar> + 1)" using ilog2_bounds by blast
    also have "\<dots> \<le> 2 powi 1024" using e by (intro power_int_increasing) simp_all
    finally show ?thesis .
  qed
  show "fl_round fe = fe" unfolding fe by (rule fl_round_idem)
qed

lemma fl_result_bounded:
  assumes "\<bar>x\<bar> \<le> \<bar>fe\<bar>" "fl_round fe = fe" "\<bar>fe\<bar> < 2 powi 1024"
  shows "fl_result x = Finite (fl_round x)"
proof -
  have a: "fl_round \<bar>fe\<bar> = \<bar>fe\<bar>" using assms(2) by (cases "0 \<le> fe") (simp_all add: fl_round_minus)
  have "x \<le> \<bar>fe\<bar>" "- \<bar>fe\<bar> \<le> x" using assms(1) by (simp_all add: abs_le_iff)
  then have "fl_round x \<le> fl_round \<bar>fe\<bar>" "fl_round (- \<bar>fe\<bar>) \<le> fl_round x"
    by (simp_all only: fl_round_mono)
  then have "\<bar>fl_round x\<bar> \<le> \<bar>fe\<bar>" by (simp add: fl_round_minus a abs_le_iff)
  then show ?thesis using assms(3) by (intro fl_result_finite) simp
qed


lemma scale_dims_landscape:
  assumes "0 < h" "h < w" "w \<le> 2 ^ 53" "float_of_int E = Inr (Finite fe)"
  shows "scale_dims w h E =
    Inr (E, trunc (fl_round (fe / fl_round (of_int w / of_int h))))"
proof -
  let ?r = "fl_round (rat_of_int w / of_int h)"
  have w: "\<bar>w\<bar> \<le> 2 ^ 53" and h: "\<bar>h\<bar> \<le> 2 ^ 53" using assms by simp_all
  have rb: "0 \<le> ?r" "?r \<le> of_int w" "1 \<le> ?r"
    using ratio_bounds[of w h] assms by simp_all
  have "\<bar>rat_of_int w / of_int h\<bar> \<le> \<bar>of_int w\<bar>"
    using assms by (intro abs_div_ge1_le) simp
  then have "\<bar>rat_of_int w / of_int h\<bar> \<le> of_int w"
    using assms by simp
  then have ratio: "fl_result (of_int w / of_int h) = Finite ?r"
    using assms(3) by (rule fl_result_small)
  have "\<bar>fe / ?r\<bar> \<le> \<bar>fe\<bar>" using rb(3) by (rule abs_div_ge1_le)
  then have q: "fl_result (fe / ?r) = Finite (fl_round (fe / ?r))"
    using float_of_int_FiniteD(3,2)[OF assms(4)] by (rule fl_result_bounded)
  have r0: "?r \<noteq> 0" using rb(3) by simp
  have h0: "rat_of_int h \<noteq> 0" using assms(1) by simp
  show ?thesis
    using assms(2) h0 r0
    by (simp add: scale_dims_def bind_exn_def float_of_int_small[OF w] float_of_int_small[OF h]
        assms(4) float_truediv_def ratio q)
qed

lemma scale_dims_portrait:
  assumes "0 \<le> w" "0 < h" "w \<le> h" "h \<le> 2 ^ 53" "float_of_int E = Inr (Finite fe)"
  shows "scale_dims w h E =
    Inr (trunc (fl_round (fe * fl_round (of_int w / of_int h))), E)"
proof -
  let ?r = "fl_round (rat_of_int w / of_int h)"
  have w53: "w \<le> 2 ^ 53" using assms by simp
  have w: "\<bar>w\<bar> \<le> 2 ^ 53" and h: "\<bar>h\<bar> \<le> 2 ^ 53" using assms by simp_all
  have rb: "0 \<le> ?r" "?r \<le> 1"
    using ratio_bounds[of w h] assms by simp_all
  have "\<bar>rat_of_int w / of_int h\<bar> \<le> \<bar>of_int w\<bar>"
    using assms by (intro abs_div_ge1_le) simp
  then have "\<bar>rat_of_int w / of_int h\<bar> \<le> of_int w"
    using assms by simp
  then have ratio: "fl_result (of_int w / of_int h) = Finite ?r"
    using w53 by (rule fl_result_small)
  have "\<bar>fe * ?r\<bar> = \<bar>fe\<bar> * ?r" using rb(1) by (simp add: abs_mult)
  also have "\<dots> \<le> \<bar>fe\<bar> * 1" using rb(2) by (intro mult_left_mono) simp_all
  finally have "\<bar>fe * ?r\<bar> \<le> \<bar>fe\<bar>" by simp
  then have q: "fl_result (fe * ?r) = Finite (fl_round (fe * ?r))"
    using float_of_int_FiniteD(3,2)[OF assms(5)] by (rule fl_result_bounded)
  have h0: "rat_of_int h \<noteq> 0" using assms(2) by simp
  show ?thesis
    using assms(3) h0
    by (simp add: scale_dims_def bind_exn_def float_of_int_small[OF w] float_of_int_small[OF h]
        assms(5) float_truediv_def ratio q)
qed

subsection \<open>Error bounds of the two roundings\<close>

lemma trunc_le: "x \<le> of_int m \<Longrightarrow> 0 \<le> m \<Longrightarrow> trunc x \<le> m"
  by (auto simp: trunc_def floor_le_iff ceiling_le_iff intro: order_trans)

lemma trunc_nonneg: "0 \<le> x \<Longrightarrow> trunc x = \<lfloor>x\<rfloor>"
  by (simp add: trunc_def)

lemma normal_ge:
  fixes x :: rat
  assumes "1 / 2 ^ 54 \<le> x"
  shows "2 powi (- 1022) \<le> \<bar>x\<bar>"
proof -
  have "(2::rat) powi (- 1022) \<le> 2 powi (- 54)" by (intro power_int_increasing) simp_all
  also have "\<dots> = 1 / 2 ^ 54" by (simp add: power_int_minus_divide)
  finally show ?thesis using assms by linarith
qed

lemma fl_round_rel:
  fixes x :: rat
  assumes "1 / 2 ^ 54 \<le> x"
  shows "\<bar>fl_round x - x\<bar> \<le> x / 2 ^ 53"
proof -
  have "(0::rat) \<le> 1 / 2 ^ 54" by simp
  then have "0 \<le> x" using assms by linarith
  then show ?thesis using fl_round_rel_err[OF normal_ge[OF assms]] by simp
qed

lemma mul_err:
  fixes X :: rat
  assumes X: "1 / 2 ^ 53 \<le> X" and E: "1 \<le> E"
  defines "r \<equiv> fl_round X"
  defines "P \<equiv> fl_round (E * r)"
  shows "\<bar>P - E * X\<bar> \<le> E * X / 2 ^ 51"
proof -
  define u :: rat where "u = 1 / 2 ^ 53"
  have u: "0 < u" "u \<le> 1 / 2" by (simp_all add: u_def)
  have X0: "0 < X" using X u(1) unfolding u_def by linarith
  have "(1::rat) / 2 ^ 54 \<le> 1 / 2 ^ 53" by simp
  then have "1 / 2 ^ 54 \<le> X" using X by linarith
  then have "\<bar>r - X\<bar> \<le> X / 2 ^ 53" unfolding r_def by (rule fl_round_rel)
  then have rX: "\<bar>r - X\<bar> \<le> X * u" by (simp add: u_def)
  have rlo: "X / 2 \<le> r"
  proof -
    have "X * u \<le> X * (1 / 2)" using u X0 by (intro mult_left_mono) simp_all
    then show ?thesis using rX by (simp add: abs_le_iff)
  qed
  have rhi: "r \<le> X * (1 + u)" using rX by (simp add: abs_le_iff algebra_simps)
  have "1 / 2 ^ 54 \<le> X / 2" using X by simp
  also have "\<dots> \<le> r" by (rule rlo)
  also have "r \<le> E * r" using E rlo X0 by (simp add: mult_le_cancel_right1)
  finally have "\<bar>P - E * r\<bar> \<le> E * r / 2 ^ 53" unfolding P_def by (rule fl_round_rel)
  then have PE: "\<bar>P - E * r\<bar> \<le> E * r * u" by (simp add: u_def)
  have E0: "0 < E" using E by simp
  have "E * r * u \<le> E * (X * (1 + u)) * u"
    using rhi E0 u by (intro mult_right_mono mult_left_mono) simp_all
  then have 1: "\<bar>P - E * r\<bar> \<le> E * X * ((1 + u) * u)" using PE by (simp add: algebra_simps)
  have "\<bar>E * r - E * X\<bar> = E * \<bar>r - X\<bar>" using E0 by (simp add: abs_mult flip: right_diff_distrib)
  also have "\<dots> \<le> E * (X * u)" using rX E0 by (intro mult_left_mono) simp_all
  finally have 2: "\<bar>E * r - E * X\<bar> \<le> E * X * u" by (simp add: algebra_simps)
  have "\<bar>P - E * X\<bar> \<le> \<bar>P - E * r\<bar> + \<bar>E * r - E * X\<bar>" by simp
  also have "\<dots> \<le> E * X * ((1 + u) * u) + E * X * u" using 1 2 by simp
  also have "\<dots> = E * X * ((2 + u) * u)" by (simp add: algebra_simps)
  also have "\<dots> \<le> E * X * (1 / 2 ^ 51)"
    using E0 X0 by (intro mult_left_mono) (simp_all add: u_def)
  finally show ?thesis by simp
qed


lemma div_err:
  fixes X :: rat
  assumes X: "1 \<le> X" "X \<le> 2 ^ 53" and E: "1 \<le> E"
  defines "r \<equiv> fl_round X"
  defines "P \<equiv> fl_round (E / r)"
  shows "\<bar>P - E / X\<bar> \<le> E / X / 2 ^ 51"
proof -
  define u :: rat where "u = 1 / 2 ^ 53"
  have u: "0 < u" "u \<le> 1 / 2" by (simp_all add: u_def)
  have X0: "0 < X" using X by simp
  have E0: "0 < E" using E by simp
  have "(1::rat) / 2 ^ 54 \<le> 1" by simp
  then have "1 / 2 ^ 54 \<le> X" using X by linarith
  then have "\<bar>r - X\<bar> \<le> X / 2 ^ 53" unfolding r_def by (rule fl_round_rel)
  then have rX: "\<bar>r - X\<bar> \<le> X * u" by (simp add: u_def)
  have rlo: "X / 2 \<le> r"
  proof -
    have "X * u \<le> X * (1 / 2)" using u X0 by (intro mult_left_mono) simp_all
    then show ?thesis using rX by (simp add: abs_le_iff)
  qed
  have r0: "0 < r" using rlo X0 by simp
  have "fl_round X \<le> fl_round (of_int (2 ^ 53))" using X(2) by (intro fl_round_mono) simp
  then have rhi: "r \<le> 2 ^ 53" unfolding r_def using fl_round_of_int[of "2 ^ 53"] by simp
  have Er_le: "E / r \<le> 2 * (E / X)"
  proof -
    have "E / r \<le> E / (X / 2)" using rlo X0 E0 by (intro divide_left_mono) simp_all
    moreover have "E / (X / 2) = 2 * (E / X)" by simp
    ultimately show ?thesis by (simp only:)
  qed
  have "1 / 2 ^ 53 \<le> E / 2 ^ 53" using E by (simp add: divide_right_mono)
  also have "\<dots> \<le> E / r" using rhi r0 E0 by (intro divide_left_mono) simp_all
  finally have "1 / 2 ^ 53 \<le> E / r" .
  moreover have "(1::rat) / 2 ^ 54 \<le> 1 / 2 ^ 53" by simp
  ultimately have "1 / 2 ^ 54 \<le> E / r" by linarith
  then have "\<bar>P - E / r\<bar> \<le> E / r / 2 ^ 53" unfolding P_def by (rule fl_round_rel)
  then have 1: "\<bar>P - E / r\<bar> \<le> E / r * u" by (simp add: u_def)
  have "E / r - E / X = E / r * ((X - r) / X)" using r0 X0 by (simp add: field_simps)
  then have "\<bar>E / r - E / X\<bar> = E / r * (\<bar>r - X\<bar> / X)"
    using r0 X0 E0 by (simp add: abs_mult abs_minus_commute)
  also have "\<dots> \<le> E / r * u"
  proof -
    have "\<bar>r - X\<bar> / X \<le> u" using rX X0 by (simp add: field_simps)
    then show ?thesis using E0 r0 by (intro mult_left_mono) simp_all
  qed
  finally have 2: "\<bar>E / r - E / X\<bar> \<le> E / r * u" .
  have "\<bar>P - E / X\<bar> \<le> \<bar>P - E / r\<bar> + \<bar>E / r - E / X\<bar>" by simp
  also have "\<dots> \<le> E / r * u + E / r * u" using 1 2 by (rule add_mono)
  also have "\<dots> = E / r * (2 * u)" by (simp add: algebra_simps)
  also have "\<dots> \<le> 2 * (E / X) * (2 * u)" using Er_le u by (intro mult_right_mono) simp_all
  also have "\<dots> = E / X / 2 ^ 51" by (simp add: u_def)
  finally show ?thesis .
qed

lemma aspect_core:
  fixes t P :: rat and E n :: int
  assumes t: "0 < t" "t \<le> of_int E" and E: "E \<le> 2 ^ 25"
    and err: "\<bar>P - t\<bar> \<le> t / 2 ^ 51" and PE: "P \<le> of_int E"
    and n: "n = \<lfloor>P\<rfloor>" "1 \<le> n"
  shows "\<bar>of_int n - t\<bar> * of_int n \<le> of_int E"
proof -
  define e :: rat where "e = of_int E"
  define m :: rat where "m = of_int n"
  have nP: "m \<le> P" "P < m + 1" unfolding m_def n by linarith+
  have m1: "1 \<le> m" unfolding m_def using n(2) by simp
  have me: "m \<le> e" using nP PE by (simp add: e_def)
  have e1: "1 \<le> e" using m1 me by simp
  have "rat_of_int E \<le> of_int (2 ^ 25)" using E by (simp only: of_int_le_iff)
  then have e25: "e \<le> 2 ^ 25" by (simp add: e_def)
  have "e * e \<le> 2 ^ 25 * 2 ^ 25" using e25 e1 by (intro mult_mono) simp_all
  then have ee: "e * e / 2 ^ 51 \<le> 1 / 2" by simp
  define dt where "dt = t / 2 ^ 51"
  define de where "de = e / 2 ^ 51"
  have te: "dt \<le> de" using t(2) by (simp add: e_def dt_def de_def divide_right_mono)
  have err': "\<bar>P - t\<bar> \<le> dt" using err by (simp only: dt_def)
  have "\<bar>m - t\<bar> \<le> 1 + de" "m - t \<le> de"
    using err' te nP by linarith+
  then have d: "\<bar>m - t\<bar> \<le> 1 + e / 2 ^ 51" "m - t \<le> e / 2 ^ 51"
    by (simp_all only: de_def)
  show ?thesis
  proof (cases "m \<le> t")
    case True
    show ?thesis
    proof (cases "n = E")
      case True
      then have "m = t" using \<open>m \<le> t\<close> t(2) by (simp add: m_def)
      then show ?thesis using e1 by (simp add: m_def e_def)
    next
      case False
      then have "n \<le> E - 1" using me by (simp add: m_def e_def)
      then have "rat_of_int n \<le> of_int (E - 1)" by (simp only: of_int_le_iff)
      then have m': "m \<le> e - 1" by (simp add: m_def e_def)
      have "\<bar>m - t\<bar> * m \<le> (1 + e / 2 ^ 51) * m"
        using d(1) m1 by (intro mult_right_mono) simp_all
      also have "\<dots> = m + e * m / 2 ^ 51" by (simp add: algebra_simps)
      also have "e * m / 2 ^ 51 \<le> e * e / 2 ^ 51"
        using me e1 by (intro divide_right_mono mult_left_mono) simp_all
      finally have "\<bar>m - t\<bar> * m \<le> m + e * e / 2 ^ 51" by simp
      then show ?thesis using m' ee by (simp add: m_def e_def)
    qed
  next
    case False
    then have "\<bar>m - t\<bar> = m - t" by simp
    then have "\<bar>m - t\<bar> * m \<le> e / 2 ^ 51 * m"
      using d(2) m1 by (intro mult_right_mono) simp_all
    also have "\<dots> \<le> e / 2 ^ 51 * e" using me e1 by (intro mult_left_mono) simp_all
    finally have "\<bar>m - t\<bar> * m \<le> e * e / 2 ^ 51" by simp
    then show ?thesis using ee e1 by (simp add: m_def e_def)
  qed
qed

section \<open>The single-image operation\<close>

lemma resize_image_not_a_file:
  "\<not> os_isfile env w src_file_path \<Longrightarrow>
   resize_image env w src_file_path dst_file_path larger_edge =
     (False, w, [Print (''file not exist: '' @ src_file_path)])"
  by (simp add: resize_image_def)

text \<open>
  C8. When the source path is not a regular file at the time \<^verbatim>\<open>resize_image\<close> runs, it
  prints the diagnostic \<^verbatim>\<open>file not exist: <path>\<close> and returns \<open>False\<close>: nothing is
  raised, the image library is not called (no decode, no resize, no encode), and the
  outside world is left as it was.
\<close>

theorem resize_image_source_missing:
  "\<not> os_isfile env w src_file_path \<Longrightarrow>
   resize_image env w src_file_path dst_file_path larger_edge =
     (False, w, [Print (''file not exist: '' @ src_file_path)])"
  by (rule resize_image_not_a_file)

theorem resize_image_source_missing_witness:
  "\<not> os_isfile demo_env demo_world0 ''/tmp/images/d.jpg'' \<and>
   resize_image demo_env demo_world0 ''/tmp/images/d.jpg'' ''/tmp/small/d.jpg'' 160 =
     (False, demo_world0, [Print ''file not exist: /tmp/images/d.jpg''])"
  using resize_image_source_missing
          [of demo_env demo_world0 "''/tmp/images/d.jpg''" "''/tmp/small/d.jpg''" 160]
  by (simp add: demo_env_def demo_world0_def)

lemma resize_image_calls_resize:
  assumes "os_isfile env w src" "cv_imread env w src = Inr (Some img)"
    and "scale_dims (int (cols img)) (int (rows img)) larger_edge = Inr (nw, nh)"
  shows "\<exists>evs. snd (snd (resize_image env w src dst larger_edge)) =
           Call_imread src # Call_resize nw nh # evs"
  using assms
  by (auto simp: resize_image_def resize_try_def split: sum.splits prod.splits)

lemma floor_near_multiple:
  fixes t P :: rat and a d :: int
  assumes "0 < d" "t = of_int a / of_int d" "\<bar>P - t\<bar> < 1 / of_int d"
  shows "\<lfloor>P\<rfloor> = \<lfloor>t\<rfloor> \<or> (of_int \<lfloor>t\<rfloor> = t \<and> \<lfloor>P\<rfloor> = \<lfloor>t\<rfloor> - 1)"
proof -
  define m where "m = \<lfloor>t\<rfloor>"
  define e :: rat where "e = 1 / of_int d"
  have d1: "1 \<le> rat_of_int d" using assms(1) by simp
  have e: "0 < e" "e \<le> 1" using d1 by (simp_all add: e_def)
  have P: "t - e < P" "P < t + e" using assms(3) by (simp_all add: e_def abs_less_iff)
  have mt: "of_int m \<le> t" "t < of_int m + 1" unfolding m_def by linarith+
  show ?thesis
  proof (cases "of_int m = t")
    case True
    have "of_int (m - 1) \<le> P" "P < of_int (m - 1) + 1 \<or> (of_int m \<le> P \<and> P < of_int m + 1)"
      using P e True by auto
    then have "\<lfloor>P\<rfloor> = m - 1 \<or> \<lfloor>P\<rfloor> = m" by (auto simp: floor_eq_iff)
    then show ?thesis using True by (auto simp: m_def)
  next
    case False
    then have lt: "of_int m < t" using mt(1) by simp
    have td: "t * of_int d = of_int a" using assms(1,2) by simp
    have "rat_of_int (m * d) < of_int a"
      using lt d1 td by (simp add: mult_strict_right_mono flip: td)
    then have "m * d < a" by (simp only: of_int_less_iff)
    then have "m * d + 1 \<le> a" by simp
    then have "rat_of_int (m * d + 1) \<le> of_int a" by (simp only: of_int_le_iff)
    then have "rat_of_int (m * d + 1) / of_int d \<le> of_int a / of_int d"
      using assms(1) by (intro divide_right_mono) simp_all
    moreover have "rat_of_int (m * d + 1) / of_int d = of_int m + e"
      using assms(1) by (simp add: e_def add_divide_distrib)
    ultimately have lo: "of_int m + e \<le> t" by (simp add: assms(2))
    have "rat_of_int a < of_int ((m + 1) * d)"
      using mt(2) d1 by (simp add: mult_strict_right_mono flip: td)
    then have "a < (m + 1) * d" by (simp only: of_int_less_iff)
    then have "a + 1 \<le> (m + 1) * d" by simp
    then have "rat_of_int (a + 1) \<le> of_int ((m + 1) * d)" by (simp only: of_int_le_iff)
    then have "rat_of_int (a + 1) / of_int d \<le> of_int ((m + 1) * d) / of_int d"
      using assms(1) by (intro divide_right_mono) simp_all
    moreover have "rat_of_int (a + 1) / of_int d = t + e"
      by (simp add: assms(2) e_def add_divide_distrib)
    moreover have "rat_of_int ((m + 1) * d) / of_int d = of_int m + 1"
      using assms(1) by simp
    ultimately have hi: "t + e \<le> of_int m + 1" by simp
    have "of_int m \<le> P" "P < of_int m + 1" using P lo hi by linarith+
    then have "\<lfloor>P\<rfloor> = m" by (simp add: floor_eq_iff)
    then show ?thesis by (simp add: m_def)
  qed
qed

lemma scale_dims_exact:
  assumes "0 < w" "0 < h" "w \<le> 2 ^ 53" "h \<le> 2 ^ 53" "0 < E" "E * min w h < 2 ^ 51"
  shows "\<exists>new_w new_h. scale_dims w h E = Inr (new_w, new_h) \<and>
           (if h < w
            then new_w = E \<and>
                 (new_h = trunc (of_int E / (of_int w / of_int h))
                  \<or> (of_int (trunc (of_int E / (of_int w / of_int h)))
                        = rat_of_int E / (of_int w / of_int h)
                      \<and> new_h = trunc (of_int E / (of_int w / of_int h)) - 1))
            else new_h = E \<and>
                 (new_w = trunc (of_int E * (of_int w / of_int h))
                  \<or> (of_int (trunc (of_int E * (of_int w / of_int h)))
                        = rat_of_int E * (of_int w / of_int h)
                      \<and> new_w = trunc (of_int E * (of_int w / of_int h)) - 1)))"
proof -
  define X :: rat where "X = of_int w / of_int h"
  define r where "r = fl_round X"
  define e :: rat where "e = of_int E"
  have w1: "1 \<le> rat_of_int w" and h1: "1 \<le> rat_of_int h" using assms by simp_all
  have "E * 1 \<le> E * min w h" using assms(1,2,5) by (intro mult_left_mono) simp_all
  then have E51: "E < 2 ^ 51" using assms(6) by simp
  then have aE: "\<bar>E\<bar> \<le> 2 ^ 53" using assms(5) by simp
  have fe: "float_of_int E = Inr (Finite e)" unfolding e_def by (rule float_of_int_small[OF aE])
  have e1: "1 \<le> e" using assms(5) by (simp add: e_def)
  have "rat_of_int w \<le> of_int (2 ^ 53)" "rat_of_int h \<le> of_int (2 ^ 53)"
    using assms by (simp_all only: of_int_le_iff)
  then have w53: "rat_of_int w \<le> 2 ^ 53" and h53: "rat_of_int h \<le> 2 ^ 53" by simp_all
  have X0: "0 < X" using assms by (simp add: X_def)
  have rb: "0 \<le> r" "h < w \<Longrightarrow> 1 \<le> r"
    using ratio_bounds[of w h] assms by (simp_all add: r_def X_def)
  show ?thesis
  proof (cases "h < w")
    case True
    define t where "t = e / X"
    define P where "P = fl_round (e / r)"
    have sd: "scale_dims w h E = Inr (E, trunc P)"
      using scale_dims_landscape[OF assms(2) True assms(3) fe]
      by (simp add: P_def r_def X_def)
    have P0: "0 \<le> P" unfolding P_def using rb(2)[OF True] e1 by (intro fl_round_nonneg) simp
    have t0: "0 < t" using X0 e1 by (simp add: t_def)
    have X1: "1 \<le> X" using True assms by (simp add: X_def)
    have "X \<le> rat_of_int w" unfolding X_def using w1 h1 by (intro div_ge1_le) simp_all
    then have XU: "X \<le> 2 ^ 53" using w53 by simp
    have err: "\<bar>P - t\<bar> \<le> t / 2 ^ 51"
      using div_err[OF X1 XU e1] by (simp add: P_def r_def t_def)
    have ta: "t = of_int (E * h) / of_int w" using assms by (simp add: t_def e_def X_def)
    have "E * h < 2 ^ 51" using assms(6) True by (simp add: min_def)
    then have "rat_of_int (E * h) < of_int (2 ^ 51)" by (simp only: of_int_less_iff)
    then have "rat_of_int (E * h) / 2 ^ 51 < 1" by simp
    then have "t / 2 ^ 51 < 1 / of_int w"
      using assms(1) unfolding ta by (simp add: field_simps)
    then have "\<bar>P - t\<bar> < 1 / of_int w" using err by linarith
    from floor_near_multiple[OF assms(1) ta this]
    have "trunc P = trunc t \<or> (of_int (trunc t) = t \<and> trunc P = trunc t - 1)"
      using P0 t0 by (simp add: trunc_nonneg)
    then show ?thesis using sd True by (auto simp: t_def e_def X_def)
  next
    case False
    then have wh: "w \<le> h" by simp
    define t where "t = e * X"
    define P where "P = fl_round (e * r)"
    have sd: "scale_dims w h E = Inr (trunc P, E)"
      using scale_dims_portrait[OF _ assms(2) wh assms(4) fe] assms(1)
      by (simp add: P_def r_def X_def)
    have P0: "0 \<le> P" unfolding P_def using rb(1) e1 by (intro fl_round_nonneg) simp
    have t0: "0 < t" using X0 e1 by (simp add: t_def)
    have "1 / 2 ^ 53 \<le> 1 / rat_of_int h" using h53 h1 by (intro divide_left_mono) simp_all
    also have "\<dots> \<le> X" unfolding X_def using w1 h1 by (intro divide_right_mono) simp_all
    finally have XL: "1 / 2 ^ 53 \<le> X" .
    have err: "\<bar>P - t\<bar> \<le> t / 2 ^ 51"
      using mul_err[OF XL e1] by (simp add: P_def r_def t_def)
    have ta: "t = of_int (E * w) / of_int h" by (simp add: t_def e_def X_def)
    have "E * w < 2 ^ 51" using assms(6) wh by (simp add: min_def)
    then have "rat_of_int (E * w) < of_int (2 ^ 51)" by (simp only: of_int_less_iff)
    then have "rat_of_int (E * w) / 2 ^ 51 < 1" by simp
    then have "t / 2 ^ 51 < 1 / of_int h"
      using assms(2) unfolding ta by (simp add: field_simps)
    then have "\<bar>P - t\<bar> < 1 / of_int h" using err by linarith
    from floor_near_multiple[OF assms(2) ta this]
    have "trunc P = trunc t \<or> (of_int (trunc t) = t \<and> trunc P = trunc t - 1)"
      using P0 t0 by (simp add: trunc_nonneg)
    then show ?thesis using sd False by (auto simp: t_def e_def X_def)
  qed
qed


text \<open>
  C1, as amended. For a source that is a regular file and decodes to an image of width
  \<open>w\<close> and height \<open>h\<close>, both positive and at most \<open>2\<^sup>5\<^sup>3\<close>, and for a positive
  \<^verbatim>\<open>larger_edge\<close> \<open>E\<close> with \<open>E * min w h < 2\<^sup>5\<^sup>1\<close>, \<^verbatim>\<open>resize_image\<close> calls \<^verbatim>\<open>cv2.resize\<close>
  with a size whose larger edge is \<open>E\<close>: the width when \<open>w > h\<close>, the height otherwise,
  square images included. The other edge is the exact quotient \<open>E / (w / h)\<close>, or the
  exact product \<open>E * (w / h)\<close>, truncated toward zero, except that where this exact value
  is a whole number the binary64 arithmetic of the code may give one less. A 200 by 100
  image with \<open>E = 160\<close> gives 160 by 80, a 100 by 200 image 80 by 160.
\<close>

theorem resize_image_output_size:
  assumes "os_isfile env w src" "cv_imread env w src = Inr (Some img)"
    and "0 < rows img" "0 < cols img" "rows img \<le> 2 ^ 53" "cols img \<le> 2 ^ 53"
    and "0 < larger_edge" "larger_edge * int (min (cols img) (rows img)) < 2 ^ 51"
  shows "(\<exists>new_w new_h evs.
            snd (snd (resize_image env w src dst larger_edge)) =
              Call_imread src # Call_resize new_w new_h # evs
            \<and> (if rows img < cols img
               then new_w = larger_edge \<and>
                    (new_h = trunc (of_int larger_edge / (of_nat (cols img) / of_nat (rows img)))
                     \<or> (of_int (trunc (of_int larger_edge / (of_nat (cols img) / of_nat (rows img))))
                           = rat_of_int larger_edge / (of_nat (cols img) / of_nat (rows img))
                         \<and> new_h = trunc (of_int larger_edge
                                           / (of_nat (cols img) / of_nat (rows img))) - 1))
               else new_h = larger_edge \<and>
                    (new_w = trunc (of_int larger_edge * (of_nat (cols img) / of_nat (rows img)))
                     \<or> (of_int (trunc (of_int larger_edge * (of_nat (cols img) / of_nat (rows img))))
                           = rat_of_int larger_edge * (of_nat (cols img) / of_nat (rows img))
                         \<and> new_w = trunc (of_int larger_edge
                                           * (of_nat (cols img) / of_nat (rows img))) - 1))))
       \<and> scale_dims 200 100 160 = Inr (160, 80)
       \<and> scale_dims 100 200 160 = Inr (80, 160)"
proof -
  let ?w = "int (cols img)" and ?h = "int (rows img)"
  have b: "0 < ?w" "0 < ?h" "?w \<le> 2 ^ 53" "?h \<le> 2 ^ 53"
    using assms(3-6) by simp_all
  have "min ?w ?h = int (min (cols img) (rows img))" by simp
  then have m: "larger_edge * min ?w ?h < 2 ^ 51" using assms(8) by (simp only:)
  have ex1: "scale_dims 200 100 160 = Inr (160, 80)" by code_simp
  have ex2: "scale_dims 100 200 160 = Inr (80, 160)" by code_simp
  from scale_dims_exact[OF b assms(7) m] obtain new_w new_h where
    sd: "scale_dims ?w ?h larger_edge = Inr (new_w, new_h)"
    and f: "if ?h < ?w
            then new_w = larger_edge \<and>
                 (new_h = trunc (of_int larger_edge / (of_int ?w / of_int ?h))
                  \<or> (of_int (trunc (of_int larger_edge / (of_int ?w / of_int ?h)))
                        = rat_of_int larger_edge / (of_int ?w / of_int ?h)
                      \<and> new_h = trunc (of_int larger_edge / (of_int ?w / of_int ?h)) - 1))
            else new_h = larger_edge \<and>
                 (new_w = trunc (of_int larger_edge * (of_int ?w / of_int ?h))
                  \<or> (of_int (trunc (of_int larger_edge * (of_int ?w / of_int ?h)))
                        = rat_of_int larger_edge * (of_int ?w / of_int ?h)
                      \<and> new_w = trunc (of_int larger_edge * (of_int ?w / of_int ?h)) - 1))"
    by blast
  from resize_image_calls_resize[OF assms(1,2) sd, of dst] obtain evs where
    "snd (snd (resize_image env w src dst larger_edge)) =
       Call_imread src # Call_resize new_w new_h # evs"
    by blast
  moreover have "if rows img < cols img
               then new_w = larger_edge \<and>
                    (new_h = trunc (of_int larger_edge / (of_nat (cols img) / of_nat (rows img)))
                     \<or> (of_int (trunc (of_int larger_edge / (of_nat (cols img) / of_nat (rows img))))
                           = rat_of_int larger_edge / (of_nat (cols img) / of_nat (rows img))
                         \<and> new_h = trunc (of_int larger_edge
                                           / (of_nat (cols img) / of_nat (rows img))) - 1))
               else new_h = larger_edge \<and>
                    (new_w = trunc (of_int larger_edge * (of_nat (cols img) / of_nat (rows img)))
                     \<or> (of_int (trunc (of_int larger_edge * (of_nat (cols img) / of_nat (rows img))))
                           = rat_of_int larger_edge * (of_nat (cols img) / of_nat (rows img))
                         \<and> new_w = trunc (of_int larger_edge
                                           * (of_nat (cols img) / of_nat (rows img))) - 1))"
    using f by (simp only: of_int_of_nat_eq of_nat_less_iff)
  ultimately show ?thesis using ex1 ex2 by blast
qed

text \<open>
  The exact formula is not always what the code computes: a 160 by 116 image at
  \<open>E = 160\<close> becomes 160 by 115, the quotient \<open>160 / (160 / 116)\<close> being 116; and a 1 by
  49 image at \<open>E = 49\<close> gets the width 0, the product \<open>49 * (1 / 49)\<close> being 1.
\<close>

theorem resize_image_output_size_counterexample:
  "scale_dims 160 116 160 = Inr (160, 115) \<and> trunc (160 / (160 / 116)) = 116
   \<and> scale_dims 1 49 49 = Inr (0, 49) \<and> trunc (49 * (1 / 49)) = 1"
  by code_simp

theorem resize_image_output_size_witness:
  "os_isfile demo_env demo_world0 ''/tmp/images/e.JPG''
   \<and> cv_imread demo_env demo_world0 ''/tmp/images/e.JPG'' = Inr (Some (demo_image 64 48))
   \<and> (50::int) * int (min 64 48) < 2 ^ 51
   \<and> trunc (50 / (64 / 48)) = 37
   \<and> (\<exists>evs. snd (snd (resize_image demo_env demo_world0 ''/tmp/images/e.JPG''
                         ''/tmp/small/e.JPG'' 50)) =
          Call_imread ''/tmp/images/e.JPG'' # Call_resize 50 37 # evs)"
proof -
  have f: "os_isfile demo_env demo_world0 ''/tmp/images/e.JPG''"
    by (simp add: demo_env_def demo_world0_def)
  have r: "cv_imread demo_env demo_world0 ''/tmp/images/e.JPG'' = Inr (Some (demo_image 64 48))"
    by (simp add: demo_env_def demo_world0_def)
  have d: "0 < rows (demo_image 64 48)" "0 < cols (demo_image 64 48)"
    "rows (demo_image 64 48) \<le> 2 ^ 53" "cols (demo_image 64 48) \<le> 2 ^ 53"
    by (simp_all add: demo_image_def)
  have e: "(0::int) < 50"
    "50 * int (min (cols (demo_image 64 48)) (rows (demo_image 64 48))) < 2 ^ 51"
    by (simp_all add: demo_image_def)
  have v: "trunc (50 / (64 / 48)) = 37" by code_simp
  have nv: "rat_of_int 37 \<noteq> 50 / (64 / 48)" by simp
  from resize_image_output_size[OF f r d e, of "''/tmp/small/e.JPG''"]
  obtain new_w new_h evs where
    ev: "snd (snd (resize_image demo_env demo_world0 ''/tmp/images/e.JPG''
                         ''/tmp/small/e.JPG'' 50)) =
          Call_imread ''/tmp/images/e.JPG'' # Call_resize new_w new_h # evs"
    and c: "new_w = 50 \<and>
            (new_h = trunc (50 / (64 / 48))
             \<or> (of_int (trunc (50 / (64 / 48))) = (50::rat) / (64 / 48)
                 \<and> new_h = trunc (50 / (64 / 48)) - 1))"
    by (auto simp: demo_image_def)
  have "new_w = 50" "new_h = 37" using c nv unfolding v by auto
  then have "\<exists>evs. snd (snd (resize_image demo_env demo_world0 ''/tmp/images/e.JPG''
                         ''/tmp/small/e.JPG'' 50)) =
          Call_imread ''/tmp/images/e.JPG'' # Call_resize 50 37 # evs"
    using ev by blast
  then show ?thesis using f r v by simp
qed

lemma tolerance_from_core:
  fixes t :: rat and n E :: int
  assumes "\<bar>of_int n - t\<bar> * of_int n \<le> of_int E" "1 \<le> n" "n \<le> E" "t = of_int E * x"
  shows "\<bar>rat_of_int n / of_int E - x\<bar> \<le> 1 / of_int (min n E)"
proof -
  define e :: rat where "e = of_int E"
  define m :: rat where "m = of_int n"
  have m: "0 < m" using assms(2) by (simp add: m_def)
  have e: "0 < e" using assms(2,3) by (simp add: e_def)
  have "m / e - x = (m - t) / e" using e assms(4) by (simp add: e_def field_simps)
  then have "\<bar>m / e - x\<bar> = \<bar>m - t\<bar> / e" using e by (simp add: abs_divide)
  also have "\<dots> \<le> 1 / m"
    using assms(1) m e by (simp add: m_def e_def field_simps)
  finally show ?thesis using assms(3) by (simp add: m_def e_def min_def)
qed

lemma floor_fl_round_le:
  assumes "x \<le> of_int E" "\<bar>E\<bar> \<le> 2 ^ 53"
  shows "fl_round x \<le> of_int E"
  using fl_round_mono[OF assms(1)] fl_round_of_int[OF assms(2)] by simp

text \<open>
  C2, as amended. For a source of width \<open>w\<close> and height \<open>h\<close> and a target \<open>E\<close>, all
  positive and at most \<open>2\<^sup>5\<^sup>3\<close>, the new size is computed without an exception and its
  larger edge is \<open>E\<close>. When moreover \<open>E \<le> 2\<^sup>2\<^sup>5\<close> and the smaller new edge is positive, the
  ratio of the shorter to the longer edge is kept within the specification's tolerance, one
  over the smaller new edge: that is the ratio width to height for \<open>w \<le> h\<close>, and height
  to width for \<open>w > h\<close>. The ratio width to height of a landscape source is not kept
  within that tolerance: 10 by 3 at \<open>E = 5\<close> becomes 5 by 1.
\<close>

theorem scale_dims_larger_edge:
  assumes "0 < w" "0 < h" "w \<le> 2 ^ 53" "h \<le> 2 ^ 53" "0 < E" "E \<le> 2 ^ 53"
  shows "\<exists>new_w new_h. scale_dims w h E = Inr (new_w, new_h) \<and> max new_w new_h = E \<and>
           (E \<le> 2 ^ 25 \<and> 0 < min new_w new_h \<longrightarrow>
              (if w \<le> h then spec_aspect_tolerance w h new_w new_h
               else spec_aspect_tolerance h w new_h new_w))"
proof -
  define X :: rat where "X = of_int w / of_int h"
  define r where "r = fl_round X"
  define e :: rat where "e = of_int E"
  have aE: "\<bar>E\<bar> \<le> 2 ^ 53" using assms by simp
  have fe: "float_of_int E = Inr (Finite e)" unfolding e_def by (rule float_of_int_small[OF aE])
  have e1: "1 \<le> e" using assms(5) by (simp add: e_def)
  have w1: "1 \<le> rat_of_int w" and h1: "1 \<le> rat_of_int h" using assms by simp_all
  have "rat_of_int w \<le> of_int (2 ^ 53)" "rat_of_int h \<le> of_int (2 ^ 53)"
    using assms by (simp_all only: of_int_le_iff)
  then have w53: "rat_of_int w \<le> 2 ^ 53" and h53: "rat_of_int h \<le> 2 ^ 53" by simp_all
  have X0: "0 < X" using assms by (simp add: X_def)
  have rb: "0 \<le> r" "h < w \<Longrightarrow> 1 \<le> r" "w \<le> h \<Longrightarrow> r \<le> 1"
    using ratio_bounds[of w h] assms by (simp_all add: r_def X_def)
  show ?thesis
  proof (cases "w \<le> h")
    case True
    define P where "P = fl_round (e * r)"
    define n where "n = trunc P"
    have sd: "scale_dims w h E = Inr (n, E)"
      using scale_dims_portrait[OF _ assms(2) True assms(4) fe] assms(1)
      by (simp add: n_def P_def r_def X_def)
    have "e * r \<le> e * 1" using rb(3)[OF True] e1 by (intro mult_left_mono) simp_all
    then have "e * r \<le> of_int E" by (simp add: e_def)
    then have PE: "P \<le> of_int E" unfolding P_def using aE by (rule floor_fl_round_le)
    have P0: "0 \<le> P" unfolding P_def using rb(1) e1 by (intro fl_round_nonneg) simp
    then have nfl: "n = \<lfloor>P\<rfloor>" by (simp add: n_def trunc_nonneg)
    have nE: "n \<le> E" unfolding nfl using PE by (simp add: floor_le_iff)
    have mx: "max n E = E" using nE by simp
    have tol: "spec_aspect_tolerance w h n E" if "E \<le> 2 ^ 25" "0 < min n E"
    proof -
      define t where "t = e * X"
      have n1: "1 \<le> n" using that(2) by simp
      have "X \<le> 1" using True assms by (simp add: X_def)
      then have "e * X \<le> e * 1" using e1 by (intro mult_left_mono) simp_all
      then have tE: "t \<le> of_int E" by (simp add: t_def e_def)
      have t0: "0 < t" using X0 e1 by (simp add: t_def)
      have "1 / 2 ^ 53 \<le> 1 / rat_of_int h" using h53 h1 by (intro divide_left_mono) simp_all
      also have "\<dots> \<le> X" unfolding X_def using w1 h1 by (intro divide_right_mono) simp_all
      finally have XL: "1 / 2 ^ 53 \<le> X" .
      have "\<bar>P - t\<bar> \<le> t / 2 ^ 51"
        using mul_err[OF XL e1] by (simp add: P_def r_def t_def)
      from aspect_core[OF t0 tE that(1) this PE nfl n1]
      have "\<bar>rat_of_int n / of_int E - X\<bar> \<le> 1 / of_int (min n E)"
        using n1 nE by (rule tolerance_from_core) (simp add: t_def e_def)
      then show ?thesis by (simp add: spec_aspect_tolerance_def X_def)
    qed
    show ?thesis using sd mx tol True by auto
  next
    case False
    then have hw: "h < w" by simp
    define P where "P = fl_round (e / r)"
    define n where "n = trunc P"
    have r1: "1 \<le> r" using rb(2)[OF hw] .
    have sd: "scale_dims w h E = Inr (E, n)"
      using scale_dims_landscape[OF assms(2) hw assms(3) fe]
      by (simp add: n_def P_def r_def X_def)
    have "e / r \<le> e" using e1 r1 by (intro div_ge1_le) simp_all
    then have "e / r \<le> of_int E" by (simp add: e_def)
    then have PE: "P \<le> of_int E" unfolding P_def using aE by (rule floor_fl_round_le)
    have P0: "0 \<le> P" unfolding P_def using r1 e1 by (intro fl_round_nonneg) simp
    then have nfl: "n = \<lfloor>P\<rfloor>" by (simp add: n_def trunc_nonneg)
    have nE: "n \<le> E" unfolding nfl using PE by (simp add: floor_le_iff)
    have mx: "max E n = E" using nE by simp
    have tol: "spec_aspect_tolerance h w n E" if "E \<le> 2 ^ 25" "0 < min E n"
    proof -
      define t where "t = e / X"
      have n1: "1 \<le> n" using that(2) by simp
      have X1: "1 \<le> X" using hw assms by (simp add: X_def)
      then have "e / X \<le> e" using e1 by (intro div_ge1_le) simp_all
      then have tE: "t \<le> of_int E" by (simp add: t_def e_def)
      have t0: "0 < t" using X0 e1 by (simp add: t_def)
      have "X \<le> rat_of_int w" unfolding X_def using w1 h1 by (intro div_ge1_le) simp_all
      then have XU: "X \<le> 2 ^ 53" using w53 by simp
      have "\<bar>P - t\<bar> \<le> t / 2 ^ 51"
        using div_err[OF X1 XU e1] by (simp add: P_def r_def t_def)
      from aspect_core[OF t0 tE that(1) this PE nfl n1]
      have "\<bar>rat_of_int n / of_int E - 1 / X\<bar> \<le> 1 / of_int (min n E)"
        using n1 nE by (rule tolerance_from_core) (simp add: t_def e_def)
      then show ?thesis by (simp add: spec_aspect_tolerance_def X_def)
    qed
    show ?thesis using sd mx tol False by (auto simp: min.commute)
  qed
qed

theorem scale_dims_aspect_counterexample:
  "scale_dims 10 3 5 = Inr (5, 1) \<and> \<not> spec_aspect_tolerance 10 3 5 1"
proof -
  have "scale_dims 10 3 5 = Inr (5, 1)" by code_simp
  moreover have "\<not> spec_aspect_tolerance 10 3 5 1"
    by (simp add: spec_aspect_tolerance_def)
  ultimately show ?thesis by simp
qed

theorem scale_dims_larger_edge_witness:
  "scale_dims 100 200 160 = Inr (80, 160) \<and> max (80::int) 160 = 160
   \<and> spec_aspect_tolerance 100 200 80 160
   \<and> scale_dims 640 480 160 = Inr (160, 120) \<and> max (160::int) 120 = 160
   \<and> spec_aspect_tolerance 480 640 120 160"
proof -
  have p: "scale_dims 100 200 160 = Inr (80, 160)" by code_simp
  have l: "scale_dims 640 480 160 = Inr (160, 120)" by code_simp
  have "spec_aspect_tolerance 100 200 80 160"
    using scale_dims_larger_edge[of 100 200 160] p by simp
  moreover have "spec_aspect_tolerance 480 640 120 160"
    using scale_dims_larger_edge[of 640 480 160] l by simp
  ultimately show ?thesis using p l by simp
qed

text \<open>
  Three sizes outside the amended statement's hypotheses: a target that is not a binary64
  number is rounded before it is scaled; a very flat image gets a zero edge; and the
  rounded product \<open>49 * (1 / 49)\<close> is below one.
\<close>

lemma scale_dims_unrepresentable_edge:
  "scale_dims 1 1 (2 ^ 53 + 3) = Inr (2 ^ 53 + 4, 2 ^ 53 + 3)"
  by code_simp

lemma scale_dims_degenerate: "scale_dims 1000 1 160 = Inr (160, 0)"
  by code_simp

lemma scale_dims_rounding_below: "scale_dims 1 49 49 = Inr (0, 49)"
  by code_simp

section \<open>The batch\<close>

lemma build_file_pair_list_eq:
  "build_file_pair_list env w src_dir dst_dir names acc =
     acc @ map (\<lambda>n. (join src_dir n, join dst_dir n))
             (filter (\<lambda>n. snd (splitext n) \<in> image_ext_set
                          \<and> \<not> os_isfile env w (join dst_dir n)) names)"
  by (induction names arbitrary: acc) (simp_all add: Let_def)

lemma run_tasks_length: "length (fst (run_tasks env w E tasks)) = length tasks"
proof (induction tasks arbitrary: w)
  case Nil
  show ?case by simp
next
  case (Cons t tasks)
  obtain s d where t: "t = (s, d)" by (cases t)
  obtain ok w1 evs1 where r: "resize_image env w s d E = (ok, w1, evs1)"
    by (cases "resize_image env w s d E")
  obtain oks w2 evs2 where rs: "run_tasks env w1 E tasks = (oks, w2, evs2)"
    by (cases "run_tasks env w1 E tasks")
  have "length oks = length tasks" using Cons.IH[of w1] rs by simp
  then show ?case by (simp add: t r rs)
qed

lemma collect_results_counts:
  "fst (collect_results n results (ok_cnt, fail_cnt)) =
     (ok_cnt + length (filter id results), fail_cnt + length (filter Not results))"
  by (induction results arbitrary: ok_cnt fail_cnt) (simp_all add: case_prod_beta)

lemma length_filter_id_Not: "length (filter id bs) + length (filter Not bs) = length bs"
  by (induction bs) auto

lemma resize_image_dir_run:
  assumes "os_isdir env w src_dir" "ensure_dst_dir env w dst_dir = (Inr (), w1)"
    and "os_listdir env w1 src_dir = Inr names"
    and "build_file_pair_list env w1 src_dir dst_dir names [] = file_pair_list"
    and "file_pair_list \<noteq> []"
    and "run_tasks env w1 larger_edge (completion_order env file_pair_list) = (results, w2, evs)"
  shows "resize_image_dir env w src_dir dst_dir larger_edge =
           (Inr True, w2,
            [Print (''total image file num = '' @ str_nat (length file_pair_list)
                    @ '', action!'')]
            @ evs @ snd (collect_results (length file_pair_list) results (0, 0))
            @ [Print (''finished, ok = '' @ str_nat (length (filter id results))
                      @ '', fail = '' @ str_nat (length (filter Not results)))])"
proof -
  obtain c evs' where c: "collect_results (length file_pair_list) results (0, 0) = (c, evs')"
    by (cases "collect_results (length file_pair_list) results (0, 0)")
  have "c = (length (filter id results), length (filter Not results))"
    using collect_results_counts[of "length file_pair_list" results 0 0] c by simp
  then show ?thesis
    using assms c by (simp add: resize_image_dir_def Let_def)
qed

lemma resize_image_dir_nothing:
  assumes "os_isdir env w src_dir" "ensure_dst_dir env w dst_dir = (Inr (), w1)"
    and "os_listdir env w1 src_dir = Inr names"
    and "build_file_pair_list env w1 src_dir dst_dir names [] = []"
  shows "resize_image_dir env w src_dir dst_dir larger_edge =
           (Inr True, w1, [Print ''no image to resize''])"
  using assms by (simp add: resize_image_dir_def Let_def)


lemma ensure_dst_dir_cases:
  obtains (ok) w1 where "ensure_dst_dir env w dst_dir = (Inr (), w1)"
  | (raised) ex w1 where "ensure_dst_dir env w dst_dir = (Inl ex, w1)"
proof (cases "ensure_dst_dir env w dst_dir")
  case (Pair r w1)
  then show ?thesis using ok raised by (cases r) auto
qed

text \<open>
  C4. \<^verbatim>\<open>resize_image_dir\<close> returns \<open>True\<close> whenever the source directory exists and the
  run reaches its end (\<^verbatim>\<open>os.makedirs\<close> and \<^verbatim>\<open>os.listdir\<close> raise nothing), whatever the
  results of the single tasks are; and it returns \<open>False\<close> exactly when the source
  directory does not exist at the start.
\<close>

theorem resize_image_dir_returns:
  "(os_isdir env w src_dir \<and> fst (ensure_dst_dir env w dst_dir) = Inr ()
      \<and> os_listdir env (snd (ensure_dst_dir env w dst_dir)) src_dir = Inr names
    \<longrightarrow> fst (resize_image_dir env w src_dir dst_dir larger_edge) = Inr True)
   \<and> (fst (resize_image_dir env w src_dir dst_dir larger_edge) = Inr False
        \<longleftrightarrow> \<not> os_isdir env w src_dir)"
proof -
  have a: "fst (resize_image_dir env w src_dir dst_dir larger_edge) = Inr True"
    if h: "os_isdir env w src_dir" "fst (ensure_dst_dir env w dst_dir) = Inr ()"
      "os_listdir env (snd (ensure_dst_dir env w dst_dir)) src_dir = Inr names" for names
  proof -
    obtain w1 where e: "ensure_dst_dir env w dst_dir = (Inr (), w1)"
      using h(2) by (cases "ensure_dst_dir env w dst_dir") auto
    then have l: "os_listdir env w1 src_dir = Inr names" using h(3) by simp
    show ?thesis
    proof (cases "build_file_pair_list env w1 src_dir dst_dir names [] = []")
      case True
      from resize_image_dir_nothing[OF h(1) e l True] show ?thesis by simp
    next
      case False
      obtain results w2 evs where
        "run_tasks env w1 larger_edge
           (completion_order env (build_file_pair_list env w1 src_dir dst_dir names []))
         = (results, w2, evs)"
        using prod_cases3 by blast
      from resize_image_dir_run[OF h(1) e l refl False this] show ?thesis by simp
    qed
  qed
  have b: "fst (resize_image_dir env w src_dir dst_dir larger_edge) \<noteq> Inr False"
    if "os_isdir env w src_dir"
  proof (cases rule: ensure_dst_dir_cases[of env w dst_dir])
    case (raised ex w1)
    then show ?thesis using that by (simp add: resize_image_dir_def)
  next
    case (ok w1)
    show ?thesis
    proof (cases "os_listdir env w1 src_dir")
      case (Inl ex)
      then show ?thesis using that ok by (simp add: resize_image_dir_def)
    next
      case (Inr names')
      then show ?thesis using a[of names'] that ok by simp
    qed
  qed
  have c: "fst (resize_image_dir env w src_dir dst_dir larger_edge) = Inr False"
    if "\<not> os_isdir env w src_dir"
    using that by (simp add: resize_image_dir_def)
  show ?thesis using a b c by blast
qed

theorem resize_image_dir_returns_witness:
  "os_isdir demo_env demo_world0 ''/tmp/images''
   \<and> fst (resize_image_dir demo_env demo_world0 ''/tmp/images'' ''/tmp/small'' 160) = Inr True
   \<and> \<not> os_isdir demo_env demo_world0 ''/tmp/nowhere''
   \<and> fst (resize_image_dir demo_env demo_world0 ''/tmp/nowhere'' ''/tmp/small'' 160) = Inr False"
proof -
  have d: "os_isdir demo_env demo_world0 ''/tmp/images''"
    by (simp add: demo_env_def demo_world0_def)
  have n: "\<not> os_isdir demo_env demo_world0 ''/tmp/nowhere''"
    by (simp add: demo_env_def demo_world0_def)
  have e: "fst (ensure_dst_dir demo_env demo_world0 ''/tmp/small'') = Inr ()"
    by (simp add: ensure_dst_dir_def demo_env_def demo_world0_def)
  have l: "os_listdir demo_env (snd (ensure_dst_dir demo_env demo_world0 ''/tmp/small''))
             ''/tmp/images''
           = Inr [''a.jpg'', ''b.png'', ''notes.txt'', ''c.jpeg'', ''d.jpg'', ''.jpg'', ''e.JPG'']"
    by (simp add: ensure_dst_dir_def demo_env_def demo_world0_def)
  have "fst (resize_image_dir demo_env demo_world0 ''/tmp/images'' ''/tmp/small'' 160) = Inr True"
    using resize_image_dir_returns[of demo_env demo_world0 "''/tmp/images''" "''/tmp/small''" _ 160]
      d e l by blast
  moreover have
    "fst (resize_image_dir demo_env demo_world0 ''/tmp/nowhere'' ''/tmp/small'' 160) = Inr False"
    using resize_image_dir_returns[of demo_env demo_world0 "''/tmp/nowhere''" "''/tmp/small''" _ 160]
      n by blast
  ultimately show ?thesis using d n by simp
qed

lemma collect_results_step:
  assumes "j < length results"
  shows "fst (collect_results n (take (Suc j) results) (0, 0)) =
           (case fst (collect_results n (take j results) (0, 0)) of
              (ok_cnt, fail_cnt) \<Rightarrow>
                if results ! j then (ok_cnt + 1, fail_cnt) else (ok_cnt, fail_cnt + 1))"
  using assms by (simp add: collect_results_counts take_Suc_conv_app_nth)

lemma demo_world0_prepared:
  "ensure_dst_dir demo_env demo_world0 ''/tmp/small''
     = (Inr (), demo_world0\<lparr>dirs := ''/tmp/small'' # dirs demo_world0\<rparr>)"
  "os_listdir demo_env (demo_world0\<lparr>dirs := ''/tmp/small'' # dirs demo_world0\<rparr>) ''/tmp/images''
     = Inr [''a.jpg'', ''b.png'', ''notes.txt'', ''c.jpeg'', ''d.jpg'', ''.jpg'', ''e.JPG'']"
  "os_isdir demo_env demo_world0 ''/tmp/images''"
  by (simp_all add: ensure_dst_dir_def demo_env_def demo_world0_def)

lemma demo_world0_file_pair_list:
  "build_file_pair_list demo_env (demo_world0\<lparr>dirs := ''/tmp/small'' # dirs demo_world0\<rparr>)
     ''/tmp/images'' ''/tmp/small''
     [''a.jpg'', ''b.png'', ''notes.txt'', ''c.jpeg'', ''d.jpg'', ''.jpg'', ''e.JPG''] []
   = [(''/tmp/images/a.jpg'', ''/tmp/small/a.jpg''), (''/tmp/images/b.png'', ''/tmp/small/b.png''),
      (''/tmp/images/c.jpeg'', ''/tmp/small/c.jpeg''),
      (''/tmp/images/d.jpg'', ''/tmp/small/d.jpg'')]"
  by code_simp

lemma demo_world0_results:
  "fst (run_tasks demo_env (demo_world0\<lparr>dirs := ''/tmp/small'' # dirs demo_world0\<rparr>) 160
     (completion_order demo_env
        [(''/tmp/images/a.jpg'', ''/tmp/small/a.jpg''), (''/tmp/images/b.png'', ''/tmp/small/b.png''),
         (''/tmp/images/c.jpeg'', ''/tmp/small/c.jpeg''),
         (''/tmp/images/d.jpg'', ''/tmp/small/d.jpg'')]))
   = [False, False, True, True]"
  by code_simp

text \<open>
  C5. In the loop that collects the results, each completed task increments exactly one
  of \<open>ok_cnt\<close> and \<open>fail_cnt\<close> by one, so that after \<open>j\<close> results their sum is \<open>j\<close>. At
  the end \<open>ok_cnt = N - k\<close> and \<open>fail_cnt = k\<close>, for \<open>N\<close> results of which \<open>k\<close> are
  failures; and when the pool completes every submitted task once, the summary that
  \<^verbatim>\<open>resize_image_dir\<close> prints last has these counts for \<open>N\<close> the number of work items.
\<close>

theorem collect_results_summary:
  "(\<forall>j \<le> length results.
      (case fst (collect_results n (take j results) (0, 0)) of
         (ok_cnt, fail_cnt) \<Rightarrow> ok_cnt + fail_cnt = j))
   \<and> (\<forall>j < length results.
        fst (collect_results n (take (Suc j) results) (0, 0)) =
          (case fst (collect_results n (take j results) (0, 0)) of
             (ok_cnt, fail_cnt) \<Rightarrow>
               if results ! j then (ok_cnt + 1, fail_cnt) else (ok_cnt, fail_cnt + 1)))
   \<and> fst (collect_results n results (0, 0)) =
         (length results - length (filter Not results), length (filter Not results))
   \<and> (os_isdir env w src_dir \<and> ensure_dst_dir env w dst_dir = (Inr (), w1)
        \<and> os_listdir env w1 src_dir = Inr names
        \<and> build_file_pair_list env w1 src_dir dst_dir names [] = file_pair_list
        \<and> file_pair_list \<noteq> []
        \<and> mset (completion_order env file_pair_list) = mset file_pair_list
      \<longrightarrow> (\<exists>k evs. k = length (filter Not (fst (run_tasks env w1 larger_edge
                                        (completion_order env file_pair_list))))
              \<and> k \<le> length file_pair_list
              \<and> snd (snd (resize_image_dir env w src_dir dst_dir larger_edge)) =
                   evs @ [Print (''finished, ok = '' @ str_nat (length file_pair_list - k)
                                 @ '', fail = '' @ str_nat k)]))"
proof -
  have 1: "\<forall>j \<le> length results.
      (case fst (collect_results n (take j results) (0, 0)) of
         (ok_cnt, fail_cnt) \<Rightarrow> ok_cnt + fail_cnt = j)"
    by (simp add: collect_results_counts length_filter_id_Not)
  have 2: "\<forall>j < length results.
        fst (collect_results n (take (Suc j) results) (0, 0)) =
          (case fst (collect_results n (take j results) (0, 0)) of
             (ok_cnt, fail_cnt) \<Rightarrow>
               if results ! j then (ok_cnt + 1, fail_cnt) else (ok_cnt, fail_cnt + 1))"
    using collect_results_step by blast
  have 3: "fst (collect_results n results (0, 0)) =
         (length results - length (filter Not results), length (filter Not results))"
    using length_filter_id_Not[of results] by (simp add: collect_results_counts)
  have 4: "\<exists>k evs. k = length (filter Not (fst (run_tasks env w1 larger_edge
                                        (completion_order env file_pair_list))))
              \<and> k \<le> length file_pair_list
              \<and> snd (snd (resize_image_dir env w src_dir dst_dir larger_edge)) =
                   evs @ [Print (''finished, ok = '' @ str_nat (length file_pair_list - k)
                                 @ '', fail = '' @ str_nat k)]"
    if h: "os_isdir env w src_dir" "ensure_dst_dir env w dst_dir = (Inr (), w1)"
      "os_listdir env w1 src_dir = Inr names"
      "build_file_pair_list env w1 src_dir dst_dir names [] = file_pair_list"
      "file_pair_list \<noteq> []"
      "mset (completion_order env file_pair_list) = mset file_pair_list"
  proof -
    obtain rs w2 evs where
      r: "run_tasks env w1 larger_edge (completion_order env file_pair_list) = (rs, w2, evs)"
      using prod_cases3 by blast
    have "length rs = length (completion_order env file_pair_list)"
      using run_tasks_length[of env w1 larger_edge "completion_order env file_pair_list"] r
      by simp
    then have len: "length rs = length file_pair_list"
      using mset_eq_length[OF h(6)] by simp
    have ok: "length (filter id rs) = length file_pair_list - length (filter Not rs)"
      using length_filter_id_Not[of rs] len by simp
    have "length (filter Not rs) \<le> length file_pair_list"
      using length_filter_le[of Not rs] len by simp
    then show ?thesis
      using resize_image_dir_run[OF h(1-5) r] r ok by simp
  qed
  show ?thesis using 1 2 3 4 by blast
qed


theorem collect_results_summary_witness:
  "os_isdir demo_env demo_world0 ''/tmp/images''
   \<and> fst (collect_results 4 [False, False, True, True] (0, 0)) = (2, 2)
   \<and> (\<exists>evs. snd (snd (resize_image_dir demo_env demo_world0 ''/tmp/images'' ''/tmp/small'' 160)) =
          evs @ [Print ''finished, ok = 2, fail = 2''])"
proof -
  let ?w1 = "demo_world0\<lparr>dirs := ''/tmp/small'' # dirs demo_world0\<rparr>"
  let ?names = "[''a.jpg'', ''b.png'', ''notes.txt'', ''c.jpeg'', ''d.jpg'', ''.jpg'', ''e.JPG'']"
  let ?fpl = "[(''/tmp/images/a.jpg'', ''/tmp/small/a.jpg''),
               (''/tmp/images/b.png'', ''/tmp/small/b.png''),
               (''/tmp/images/c.jpeg'', ''/tmp/small/c.jpeg''),
               (''/tmp/images/d.jpg'', ''/tmp/small/d.jpg'')]"
  have p: "mset (completion_order demo_env ?fpl) = mset ?fpl"
    by (simp add: demo_env_def)
  have s: "str_nat (Suc (Suc 0)) = ''2''" by (simp add: str_nat.simps)
  note t = collect_results_summary[of "[False, False, True, True]" 4 demo_env demo_world0
      "''/tmp/images''" "''/tmp/small''" ?w1 ?names ?fpl 160]
  have c: "fst (collect_results 4 [False, False, True, True] (0, 0)) = (2, 2)"
    using t[THEN conjunct2, THEN conjunct2, THEN conjunct1] by simp
  have "\<exists>k evs. k = length (filter Not (fst (run_tasks demo_env ?w1 160
                                        (completion_order demo_env ?fpl))))
              \<and> k \<le> length ?fpl
              \<and> snd (snd (resize_image_dir demo_env demo_world0 ''/tmp/images'' ''/tmp/small'' 160)) =
                   evs @ [Print (''finished, ok = '' @ str_nat (length ?fpl - k)
                                 @ '', fail = '' @ str_nat k)]"
    using demo_world0_prepared demo_world0_file_pair_list p
    by (intro t[THEN conjunct2, THEN conjunct2, THEN conjunct2, rule_format]) simp
  then have "\<exists>evs. snd (snd (resize_image_dir demo_env demo_world0 ''/tmp/images'' ''/tmp/small'' 160)) =
          evs @ [Print ''finished, ok = 2, fail = 2'']"
    unfolding demo_world0_results by (simp add: s)
  then show ?thesis using c demo_world0_prepared(3) by simp
qed

text \<open>
  C7. The work items are, in the order of the listing, exactly the entries whose
  extension as \<^verbatim>\<open>splitext\<close> returns it is \<^verbatim>\<open>.jpg\<close>, \<^verbatim>\<open>.png\<close> or \<^verbatim>\<open>.jpeg\<close>, compared
  as it is written, and whose destination path is not a file. An entry with another
  extension, such as \<^verbatim>\<open>.txt\<close> or the upper-case \<^verbatim>\<open>.JPG\<close>, is never a work item.
\<close>

theorem enumerator_filters_by_extension:
  "build_file_pair_list env w src_dir dst_dir names [] =
     map (\<lambda>file_name. (join src_dir file_name, join dst_dir file_name))
       (filter (\<lambda>file_name. snd (splitext file_name) \<in> {''.jpg'', ''.png'', ''.jpeg''}
                            \<and> \<not> os_isfile env w (join dst_dir file_name)) names)
   \<and> (\<forall>item \<in> set (build_file_pair_list env w src_dir dst_dir names []).
         \<exists>file_name \<in> set names.
           item = (join src_dir file_name, join dst_dir file_name)
           \<and> snd (splitext file_name) \<in> {''.jpg'', ''.png'', ''.jpeg''})
   \<and> snd (splitext ''notes.txt'') = ''.txt'' \<and> ''.txt'' \<notin> image_ext_set
   \<and> snd (splitext ''photo.JPG'') = ''.JPG'' \<and> ''.JPG'' \<notin> image_ext_set"
proof -
  have 1: "build_file_pair_list env w src_dir dst_dir names [] =
     map (\<lambda>file_name. (join src_dir file_name, join dst_dir file_name))
       (filter (\<lambda>file_name. snd (splitext file_name) \<in> {''.jpg'', ''.png'', ''.jpeg''}
                            \<and> \<not> os_isfile env w (join dst_dir file_name)) names)"
    by (simp add: build_file_pair_list_eq image_ext_set_def)
  have 2: "\<forall>item \<in> set (build_file_pair_list env w src_dir dst_dir names []).
         \<exists>file_name \<in> set names.
           item = (join src_dir file_name, join dst_dir file_name)
           \<and> snd (splitext file_name) \<in> {''.jpg'', ''.png'', ''.jpeg''}"
    unfolding 1 by auto
  have 3: "snd (splitext ''notes.txt'') = ''.txt''" "snd (splitext ''photo.JPG'') = ''.JPG''"
    by code_simp+
  have 4: "''.txt'' \<notin> image_ext_set" "''.JPG'' \<notin> image_ext_set"
    by (simp_all add: image_ext_set_def)
  show ?thesis using 1 2 3 4 by blast
qed

theorem enumerator_filters_by_extension_witness:
  "build_file_pair_list demo_env demo_world0 ''/tmp/images'' ''/tmp/small''
     [''a.jpg'', ''b.png'', ''notes.txt'', ''c.jpeg'', ''d.jpg'', ''.jpg'', ''e.JPG''] []
   = [(''/tmp/images/a.jpg'', ''/tmp/small/a.jpg''), (''/tmp/images/b.png'', ''/tmp/small/b.png''),
      (''/tmp/images/c.jpeg'', ''/tmp/small/c.jpeg''),
      (''/tmp/images/d.jpg'', ''/tmp/small/d.jpg'')]"
proof -
  have "map (\<lambda>file_name. (join ''/tmp/images'' file_name, join ''/tmp/small'' file_name))
       (filter (\<lambda>file_name. snd (splitext file_name) \<in> {''.jpg'', ''.png'', ''.jpeg''}
                            \<and> \<not> os_isfile demo_env demo_world0 (join ''/tmp/small'' file_name))
          [''a.jpg'', ''b.png'', ''notes.txt'', ''c.jpeg'', ''d.jpg'', ''.jpg'', ''e.JPG''])
   = [(''/tmp/images/a.jpg'', ''/tmp/small/a.jpg''), (''/tmp/images/b.png'', ''/tmp/small/b.png''),
      (''/tmp/images/c.jpeg'', ''/tmp/small/c.jpeg''),
      (''/tmp/images/d.jpg'', ''/tmp/small/d.jpg'')]"
    by code_simp
  then show ?thesis
    using enumerator_filters_by_extension[of demo_env demo_world0 "''/tmp/images''" "''/tmp/small''"
        "[''a.jpg'', ''b.png'', ''notes.txt'', ''c.jpeg'', ''d.jpg'', ''.jpg'', ''e.JPG'']"]
    by (simp only:)
qed










lemma float_of_int_overflow: "float_of_int (2 ^ 1024) = Inl OverflowError"
proof -
  define x :: rat where "x = 2 powi 1024"
  have x0: "0 < x" by (simp add: x_def)
  have ax: "\<bar>x\<bar> = x" using x0 by simp
  have "x < 2 powi (1024 + 1)" unfolding x_def by (intro power_int_strict_increasing) simp_all
  then have le: "ilog2 x \<le> 1024" using x0 by (intro ilog2_le)
  have ge: "1024 \<le> ilog2 x" using x0 by (intro ilog2_ge) (simp_all add: x_def)
  have il: "ilog2 x = 1024" using le ge by simp
  have "fl_exp x \<le> 1024" by (simp add: fl_exp_def ax il)
  moreover have "x = of_int 1 * 2 powi 1024" by (simp add: x_def)
  ultimately have r: "fl_round x = x" by (intro fl_round_exact)
  have "fl_result x = PosInf" using x0 by (simp add: fl_result_def r ax il)
  moreover have "rat_of_int (2 ^ 1024) = x" by (simp add: x_def)
  ultimately show ?thesis by (simp add: float_of_int_def)
qed

lemma scale_dims_overflow:
  assumes "0 < h" "0 \<le> w" "w \<le> 2 ^ 53" "h \<le> 2 ^ 53"
  shows "scale_dims w h (2 ^ 1024) = Inl OverflowError"
proof -
  have w: "\<bar>w\<bar> \<le> 2 ^ 53" and h: "\<bar>h\<bar> \<le> 2 ^ 53" using assms by simp_all
  have h0: "rat_of_int h \<noteq> 0" using assms(1) by simp
  show ?thesis
    using h0
    by (simp add: scale_dims_def bind_exn_def float_of_int_small[OF w] float_of_int_small[OF h]
        float_truediv_def float_of_int_overflow del: power_numeral)
qed


text \<open>
  C3. Whatever step of the \<^verbatim>\<open>try\<close> block of \<^verbatim>\<open>resize_image\<close> raises, the exception is
  caught, the line \<^verbatim>\<open>resize failed, ...\<close> with the error is printed and \<open>False\<close> is
  returned: an exception of \<^verbatim>\<open>cv2.imread\<close>; a file that OpenCV cannot decode (a corrupt
  or empty one), for which \<^verbatim>\<open>cv2.imread\<close> returns \<^verbatim>\<open>None\<close> and \<^verbatim>\<open>img.shape\<close> raises; an
  exception of the float arithmetic; one of \<^verbatim>\<open>cv2.resize\<close>; one of \<^verbatim>\<open>cv2.imwrite\<close>. A
  task that returns \<open>False\<close> does not stop the batch: every remaining task is run, from
  the state the failed task left, each yields a result, and the failure adds one to
  \<open>fail_cnt\<close>.
\<close>

theorem resize_image_failure_contained:
  assumes "os_isfile env w src_file_path"
  shows
   "(cv_imread env w src_file_path = Inl ex \<longrightarrow>
       resize_image env w src_file_path dst_file_path larger_edge =
         (False, w,
          [Call_imread src_file_path,
           Print (''resize failed, file = '' @ src_file_path @ '', error = ''
                  @ exn_str env ex)]))
    \<and> (cv_imread env w src_file_path = Inr None \<longrightarrow>
       resize_image env w src_file_path dst_file_path larger_edge =
         (False, w,
          [Call_imread src_file_path,
           Print (''resize failed, file = '' @ src_file_path @ '', error = ''
                  @ exn_str env AttributeError)]))
    \<and> (cv_imread env w src_file_path = Inr (Some img)
        \<and> scale_dims (int (cols img)) (int (rows img)) larger_edge = Inl ex \<longrightarrow>
       resize_image env w src_file_path dst_file_path larger_edge =
         (False, w,
          [Call_imread src_file_path,
           Print (''resize failed, file = '' @ src_file_path @ '', error = ''
                  @ exn_str env ex)]))
    \<and> (cv_imread env w src_file_path = Inr (Some img)
        \<and> scale_dims (int (cols img)) (int (rows img)) larger_edge = Inr (new_w, new_h)
        \<and> cv_resize env img (new_w, new_h) = Inl ex \<longrightarrow>
       resize_image env w src_file_path dst_file_path larger_edge =
         (False, w,
          [Call_imread src_file_path, Call_resize new_w new_h,
           Print (''resize failed, file = '' @ src_file_path @ '', error = ''
                  @ exn_str env ex)]))
    \<and> (cv_imread env w src_file_path = Inr (Some img)
        \<and> scale_dims (int (cols img)) (int (rows img)) larger_edge = Inr (new_w, new_h)
        \<and> cv_resize env img (new_w, new_h) = Inr img'
        \<and> cv_imwrite env w dst_file_path img' = (Inl ex, w') \<longrightarrow>
       resize_image env w src_file_path dst_file_path larger_edge =
         (False, w',
          [Call_imread src_file_path, Call_resize new_w new_h, Call_imwrite dst_file_path,
           Print (''resize failed, file = '' @ src_file_path @ '', error = ''
                  @ exn_str env ex)]))
    \<and> (\<not> fst (resize_image env w src_file_path dst_file_path larger_edge) \<longrightarrow>
       (\<exists>oks. fst (run_tasks env w larger_edge ((src_file_path, dst_file_path) # tasks))
                 = False # oks
              \<and> oks = fst (run_tasks env
                              (fst (snd (resize_image env w src_file_path dst_file_path
                                           larger_edge)))
                              larger_edge tasks)
              \<and> length oks = length tasks
              \<and> fst (collect_results n (False # oks) (ok_cnt, fail_cnt)) =
                  (ok_cnt + length (filter id oks), fail_cnt + 1 + length (filter Not oks))))"
proof -
  let ?r = "resize_image env w src_file_path dst_file_path larger_edge"
  let ?oks = "fst (run_tasks env (fst (snd ?r)) larger_edge tasks)"
  have batch: "fst (run_tasks env w larger_edge ((src_file_path, dst_file_path) # tasks))
                 = False # ?oks
              \<and> length ?oks = length tasks
              \<and> fst (collect_results n (False # ?oks) (ok_cnt, fail_cnt)) =
                  (ok_cnt + length (filter id ?oks), fail_cnt + 1 + length (filter Not ?oks))"
    if "\<not> fst ?r"
  proof -
    have "fst (run_tasks env w larger_edge ((src_file_path, dst_file_path) # tasks))
            = fst ?r # ?oks"
      by (simp add: case_prod_beta)
    moreover have "length ?oks = length tasks" by (rule run_tasks_length)
    moreover have "fst (collect_results n (False # ?oks) (ok_cnt, fail_cnt)) =
                  (ok_cnt + length (filter id ?oks), fail_cnt + 1 + length (filter Not ?oks))"
      unfolding collect_results_counts by simp
    ultimately show ?thesis using that by simp
  qed
  show ?thesis
    using assms batch
    by (simp add: resize_image_def resize_try_def)
qed

theorem resize_image_failure_contained_witness:
  "os_isfile demo_env demo_world0 ''/tmp/images/c.jpeg''
   \<and> cv_imread demo_env demo_world0 ''/tmp/images/c.jpeg'' = Inr None
   \<and> resize_image demo_env demo_world0 ''/tmp/images/c.jpeg'' ''/tmp/small/c.jpeg'' 160 =
        (False, demo_world0,
         [Call_imread ''/tmp/images/c.jpeg'',
          Print ''resize failed, file = /tmp/images/c.jpeg, error = no attribute shape''])
   \<and> fst (run_tasks demo_env demo_world0 160
            [(''/tmp/images/c.jpeg'', ''/tmp/small/c.jpeg''),
             (''/tmp/images/a.jpg'', ''/tmp/small/a.jpg'')]) = [False, True]
   \<and> os_isfile demo_env demo_world0 ''/tmp/images/e.JPG''
   \<and> scale_dims 64 48 0 = Inr (0, 0)
   \<and> cv_resize demo_env (demo_image 64 48) (0, 0) = Inl (LibraryError ''empty size'')
   \<and> resize_image demo_env demo_world0 ''/tmp/images/e.JPG'' ''/tmp/small/e.JPG'' 0 =
        (False, demo_world0,
         [Call_imread ''/tmp/images/e.JPG'', Call_resize 0 0,
          Print ''resize failed, file = /tmp/images/e.JPG, error = empty size''])
   \<and> scale_dims 64 48 (2 ^ 1024) = Inl OverflowError
   \<and> resize_image demo_env demo_world0 ''/tmp/images/e.JPG'' ''/tmp/small/e.JPG'' (2 ^ 1024) =
        (False, demo_world0,
         [Call_imread ''/tmp/images/e.JPG'',
          Print ''resize failed, file = /tmp/images/e.JPG, error = overflow''])"
proof -
  have f: "os_isfile demo_env demo_world0 ''/tmp/images/c.jpeg''"
    and fe: "os_isfile demo_env demo_world0 ''/tmp/images/e.JPG''"
    by (simp_all add: demo_env_def demo_world0_def)
  have r: "cv_imread demo_env demo_world0 ''/tmp/images/c.jpeg'' = Inr None"
    and re: "cv_imread demo_env demo_world0 ''/tmp/images/e.JPG'' = Inr (Some (demo_image 64 48))"
    by (simp_all add: demo_env_def demo_world0_def)
  have s: "exn_str demo_env AttributeError = ''no attribute shape''"
    "exn_str demo_env (LibraryError ''empty size'') = ''empty size''"
    "exn_str demo_env OverflowError = ''overflow''"
    by (simp_all add: demo_env_def demo_exn_str_def)
  have a: "fst (run_tasks demo_env demo_world0 160
                  [(''/tmp/images/a.jpg'', ''/tmp/small/a.jpg'')]) = [True]"
    by code_simp
  have z: "scale_dims (int (cols (demo_image 64 48))) (int (rows (demo_image 64 48))) 0
             = Inr (0, 0)"
    by code_simp
  have z': "scale_dims 64 48 0 = Inr (0, 0)" by code_simp
  have cz: "cv_resize demo_env (demo_image 64 48) (0, 0) = Inl (LibraryError ''empty size'')"
    by (simp add: demo_env_def)
  have o': "scale_dims 64 48 (2 ^ 1024) = Inl OverflowError"
    by (rule scale_dims_overflow) simp_all
  have o: "scale_dims (int (cols (demo_image 64 48))) (int (rows (demo_image 64 48))) (2 ^ 1024)
             = Inl OverflowError"
    by (rule scale_dims_overflow) (simp_all add: demo_image_def)
  note c = resize_image_failure_contained[OF f, where dst_file_path = "''/tmp/small/c.jpeg''"
      and larger_edge = 160 and tasks = "[(''/tmp/images/a.jpg'', ''/tmp/small/a.jpg'')]"
      and n = 2 and ok_cnt = 0 and fail_cnt = 0]
  have c1: "resize_image demo_env demo_world0 ''/tmp/images/c.jpeg'' ''/tmp/small/c.jpeg'' 160 =
        (False, demo_world0,
         [Call_imread ''/tmp/images/c.jpeg'',
          Print ''resize failed, file = /tmp/images/c.jpeg, error = no attribute shape''])"
    using c[THEN conjunct2, THEN conjunct1] r by (simp add: s)
  then have "\<not> fst (resize_image demo_env demo_world0 ''/tmp/images/c.jpeg''
                       ''/tmp/small/c.jpeg'' 160)"
    by simp
  with c[THEN conjunct2, THEN conjunct2, THEN conjunct2, THEN conjunct2, THEN conjunct2]
  have "\<exists>oks. fst (run_tasks demo_env demo_world0 160
                       [(''/tmp/images/c.jpeg'', ''/tmp/small/c.jpeg''),
                        (''/tmp/images/a.jpg'', ''/tmp/small/a.jpg'')]) = False # oks
             \<and> oks = fst (run_tasks demo_env
                             (fst (snd (resize_image demo_env demo_world0 ''/tmp/images/c.jpeg''
                                          ''/tmp/small/c.jpeg'' 160)))
                             160 [(''/tmp/images/a.jpg'', ''/tmp/small/a.jpg'')])"
    by blast
  then have c6: "fst (run_tasks demo_env demo_world0 160
            [(''/tmp/images/c.jpeg'', ''/tmp/small/c.jpeg''),
             (''/tmp/images/a.jpg'', ''/tmp/small/a.jpg'')]) = [False, True]"
    unfolding c1 using a by auto
  have c4: "resize_image demo_env demo_world0 ''/tmp/images/e.JPG'' ''/tmp/small/e.JPG'' 0 =
        (False, demo_world0,
         [Call_imread ''/tmp/images/e.JPG'', Call_resize 0 0,
          Print ''resize failed, file = /tmp/images/e.JPG, error = empty size''])"
    using resize_image_failure_contained[OF fe, where dst_file_path = "''/tmp/small/e.JPG''"
        and larger_edge = 0 and img = "demo_image 64 48"
        and ex = "LibraryError ''empty size''" and new_w = 0 and new_h = 0,
        THEN conjunct2, THEN conjunct2, THEN conjunct2, THEN conjunct1] re z cz
    by (simp add: s)
  have c3: "resize_image demo_env demo_world0 ''/tmp/images/e.JPG'' ''/tmp/small/e.JPG''
              (2 ^ 1024) =
        (False, demo_world0,
         [Call_imread ''/tmp/images/e.JPG'',
          Print ''resize failed, file = /tmp/images/e.JPG, error = overflow''])"
    using resize_image_failure_contained[OF fe, where dst_file_path = "''/tmp/small/e.JPG''"
        and larger_edge = "2 ^ 1024" and img = "demo_image 64 48" and ex = OverflowError,
        THEN conjunct2, THEN conjunct2, THEN conjunct1] re o
    by (simp add: s del: power_numeral)
  show ?thesis using f r c1 c6 fe z' cz c4 o' c3 by (intro conjI)
qed

section \<open>The command line\<close>

text \<open>
  With fewer than two arguments after the script name the usage is printed, with the
  example destination computed from the script's directory, and the program ends without
  an error. With three or more, \<^verbatim>\<open>resize_image_dir\<close> is called with the third parsed by
  \<^verbatim>\<open>int\<close>.
\<close>

lemma main_usage:
  "length argv < 3 \<Longrightarrow>
   main env w argv file =
     (Inr (), w,
      [Print ''usage: python resize_image.py src_dir dst_dir larger_edge'',
       Print (''e.g. python resize_image.py /tmp/images ''
              @ os_realpath env w (join (dirname file) ''small_image'') @ '' 160'')])"
  by (simp add: main_def)

lemma main_three_arguments:
  "main env w (prog # src_dir # dst_dir # larger_edge # rest) file =
     (case parse_int env larger_edge of
        Inl ex \<Rightarrow> (Inl ex, w, [])
      | Inr n \<Rightarrow>
          (case resize_image_dir env w src_dir dst_dir n of
             (Inl ex, w', evs) \<Rightarrow> (Inl ex, w', evs)
           | (Inr ok, w', evs) \<Rightarrow> (Inr (), w', evs)))"
  by (simp add: main_def)

text \<open>
  C9, at the input where the code departs from it. With exactly two arguments after the
  script name, \<^verbatim>\<open>len(sys.argv)\<close> is 3, the usage is not printed, and unpacking the two
  elements of \<^verbatim>\<open>sys.argv[1:4]\<close> into three names raises \<^verbatim>\<open>ValueError\<close>: the program ends
  with an error and has printed nothing.
\<close>

theorem main_two_arguments:
  "main env w [prog, src_dir, dst_dir] file = (Inl ValueError, w, [])"
  by (simp add: main_def)

theorem main_two_arguments_witness:
  "main demo_env demo_world0 [''resize_image.py'', ''/tmp/images'', ''/tmp/small'']
     ''/x/resize_image.py'' = (Inl ValueError, demo_world0, [])"
  using main_two_arguments[of demo_env demo_world0 "''resize_image.py''" "''/tmp/images''"
      "''/tmp/small''" "''/x/resize_image.py''"]
  by simp

section \<open>Directory entries that are not regular files\<close>

lemma run_tasks_stays:
  assumes "stays w"
    and "\<forall>w' s d. stays w' \<longrightarrow> stays (fst (snd (resize_image env w' s d E)))"
  shows "stays (fst (snd (run_tasks env w E tasks)))"
  using assms(1)
proof (induction tasks arbitrary: w)
  case Nil
  then show ?case by simp
next
  case (Cons t tasks)
  obtain s d where t: "t = (s, d)" by (cases t)
  obtain ok w1 evs1 where r: "resize_image env w s d E = (ok, w1, evs1)"
    using prod_cases3 by blast
  have "stays w1" using assms(2) Cons.prems r by (metis fst_conv snd_conv)
  then have "stays (fst (snd (run_tasks env w1 E tasks)))" by (rule Cons.IH)
  then show ?case by (simp add: t r case_prod_beta)
qed

lemma run_tasks_missing_source:
  assumes "stays w"
    and "\<forall>w' s d. stays w' \<longrightarrow> stays (fst (snd (resize_image env w' s d E)))"
    and "\<forall>w'. stays w' \<longrightarrow> \<not> os_isfile env w' q"
    and "(q, p) \<in> set tasks"
  shows "False \<in> set (fst (run_tasks env w E tasks))
         \<and> Print (''file not exist: '' @ q) \<in> set (snd (snd (run_tasks env w E tasks)))"
  using assms(1,4)
proof (induction tasks arbitrary: w)
  case Nil
  then show ?case by simp
next
  case (Cons t tasks)
  obtain s d where t: "t = (s, d)" by (cases t)
  obtain ok w1 evs1 where r: "resize_image env w s d E = (ok, w1, evs1)"
    using prod_cases3 by blast
  have w1: "stays w1" using assms(2) Cons.prems(1) r by (metis fst_conv snd_conv)
  show ?case
  proof (cases "t = (q, p)")
    case True
    then have "\<not> os_isfile env w s" using assms(3) Cons.prems(1) t by simp
    then have "resize_image env w s d E = (False, w, [Print (''file not exist: '' @ s)])"
      by (rule resize_image_not_a_file)
    then show ?thesis using True t by (simp add: case_prod_beta)
  next
    case False
    then have "(q, p) \<in> set tasks" using Cons.prems(2) by simp
    from Cons.IH[OF w1 this] show ?thesis by (simp add: t r case_prod_beta)
  qed
qed


text \<open>
  C10, as amended. The enumerator does not look at what kind of entry a name is. An
  entry of the source directory whose extension, as \<^verbatim>\<open>splitext\<close> returns it, is
  \<^verbatim>\<open>.jpg\<close>, \<^verbatim>\<open>.png\<close> or \<^verbatim>\<open>.jpeg\<close>, with no file at its destination path, becomes a
  work item also when it is not a regular file, a subdirectory for one. As long as it
  stays so while the tasks run, its task fails at the is-file check of \<^verbatim>\<open>resize_image\<close>:
  the run prints \<^verbatim>\<open>file not exist: <path>\<close>, ends with \<open>True\<close>, and its summary counts at
  least one failure. (The predicate \<open>stays\<close> is any property of the outside world that
  the tasks preserve and under which the path is not a regular file.)
\<close>

theorem directory_entry_is_counted_failure:
  assumes "os_isdir env w src_dir" "ensure_dst_dir env w dst_dir = (Inr (), w1)"
    and "os_listdir env w1 src_dir = Inr names"
    and "file_name \<in> set names" "snd (splitext file_name) \<in> image_ext_set"
    and "\<not> os_isfile env w1 (join dst_dir file_name)"
    and "mset (completion_order env (build_file_pair_list env w1 src_dir dst_dir names []))
         = mset (build_file_pair_list env w1 src_dir dst_dir names [])"
    and "stays w1"
    and "\<forall>w' s d. stays w' \<longrightarrow> stays (fst (snd (resize_image env w' s d larger_edge)))"
    and "\<forall>w'. stays w' \<longrightarrow> \<not> os_isfile env w' (join src_dir file_name)"
  shows "(join src_dir file_name, join dst_dir file_name)
           \<in> set (build_file_pair_list env w1 src_dir dst_dir names [])
         \<and> (\<exists>w2 evs ok_cnt fail_cnt.
               resize_image_dir env w src_dir dst_dir larger_edge =
                 (Inr True, w2,
                  evs @ [Print (''finished, ok = '' @ str_nat ok_cnt
                                @ '', fail = '' @ str_nat fail_cnt)])
               \<and> Print (''file not exist: '' @ join src_dir file_name) \<in> set evs
               \<and> 1 \<le> fail_cnt)"
proof -
  let ?fpl = "build_file_pair_list env w1 src_dir dst_dir names []"
  let ?q = "join src_dir file_name" and ?p = "join dst_dir file_name"
  have item: "(?q, ?p) \<in> set ?fpl"
    using assms(4-6) by (auto simp: build_file_pair_list_eq)
  then have ne: "?fpl \<noteq> []" by auto
  have "set (completion_order env ?fpl) = set ?fpl" using assms(7) by (rule mset_eq_setD)
  then have sched: "(?q, ?p) \<in> set (completion_order env ?fpl)" using item by simp
  obtain results w2 evs where
    r: "run_tasks env w1 larger_edge (completion_order env ?fpl) = (results, w2, evs)"
    using prod_cases3 by blast
  from run_tasks_missing_source[OF assms(8,9,10) sched]
  have f: "False \<in> set results" and pr: "Print (''file not exist: '' @ ?q) \<in> set evs"
    using r by simp_all
  have "filter Not results \<noteq> []" using f by (auto simp: filter_empty_conv)
  then have k: "1 \<le> length (filter Not results)" by (simp add: Suc_le_eq)
  let ?evs = "[Print (''total image file num = '' @ str_nat (length ?fpl) @ '', action!'')]
              @ evs @ snd (collect_results (length ?fpl) results (0, 0))"
  have "resize_image_dir env w src_dir dst_dir larger_edge =
          (Inr True, w2,
           ?evs @ [Print (''finished, ok = '' @ str_nat (length (filter id results))
                          @ '', fail = '' @ str_nat (length (filter Not results)))])"
    using resize_image_dir_run[OF assms(1,2,3) refl ne r] by simp
  moreover have "Print (''file not exist: '' @ ?q) \<in> set ?evs" using pr by simp
  ultimately show ?thesis using item k by blast
qed

lemma demo_env_keeps_directories:
  "\<forall>w' s d. (q \<in> set (dirs w') \<and> map_of (files w') q = None) \<longrightarrow>
      (q \<in> set (dirs (fst (snd (resize_image demo_env w' s d E))))
       \<and> map_of (files (fst (snd (resize_image demo_env w' s d E)))) q = None)"
  by (auto simp: resize_image_def resize_try_def demo_env_def
      split: sum.splits option.splits prod.splits if_splits)

theorem directory_entry_is_counted_failure_witness:
  "os_isdir demo_env demo_world0 ''/tmp/images/d.jpg''
   \<and> snd (splitext ''d.jpg'') \<in> image_ext_set
   \<and> (''/tmp/images/d.jpg'', ''/tmp/small/d.jpg'')
        \<in> set (build_file_pair_list demo_env
                 (demo_world0\<lparr>dirs := ''/tmp/small'' # dirs demo_world0\<rparr>)
                 ''/tmp/images'' ''/tmp/small''
                 [''a.jpg'', ''b.png'', ''notes.txt'', ''c.jpeg'', ''d.jpg'', ''.jpg'', ''e.JPG''] [])
   \<and> (\<exists>w2 evs ok_cnt fail_cnt.
         resize_image_dir demo_env demo_world0 ''/tmp/images'' ''/tmp/small'' 160 =
           (Inr True, w2,
            evs @ [Print (''finished, ok = '' @ str_nat ok_cnt @ '', fail = '' @ str_nat fail_cnt)])
         \<and> Print ''file not exist: /tmp/images/d.jpg'' \<in> set evs
         \<and> 1 \<le> fail_cnt)"
proof -
  let ?w1 = "demo_world0\<lparr>dirs := ''/tmp/small'' # dirs demo_world0\<rparr>"
  let ?names = "[''a.jpg'', ''b.png'', ''notes.txt'', ''c.jpeg'', ''d.jpg'', ''.jpg'', ''e.JPG'']"
  let ?stays = "\<lambda>w'. ''/tmp/images/d.jpg'' \<in> set (dirs w')
                     \<and> map_of (files w') ''/tmp/images/d.jpg'' = None"
  have j: "join ''/tmp/images'' ''d.jpg'' = ''/tmp/images/d.jpg''"
    "join ''/tmp/small'' ''d.jpg'' = ''/tmp/small/d.jpg''"
    by code_simp+
  have d: "os_isdir demo_env demo_world0 ''/tmp/images/d.jpg''"
    by (simp add: demo_env_def demo_world0_def)
  have x: "snd (splitext ''d.jpg'') \<in> image_ext_set" by code_simp
  have n: "''d.jpg'' \<in> set ?names" by simp
  have nf: "\<not> os_isfile demo_env ?w1 (join ''/tmp/small'' ''d.jpg'')"
    unfolding j by (simp add: demo_env_def demo_world0_def)
  have p: "mset (completion_order demo_env
                   (build_file_pair_list demo_env ?w1 ''/tmp/images'' ''/tmp/small'' ?names []))
           = mset (build_file_pair_list demo_env ?w1 ''/tmp/images'' ''/tmp/small'' ?names [])"
    by (simp add: demo_env_def)
  have s1: "?stays ?w1" by (simp add: demo_world0_def)
  have s2: "\<forall>w' s d. ?stays w' \<longrightarrow> ?stays (fst (snd (resize_image demo_env w' s d 160)))"
    by (rule demo_env_keeps_directories)
  have s3: "\<forall>w'. ?stays w' \<longrightarrow> \<not> os_isfile demo_env w' (join ''/tmp/images'' ''d.jpg'')"
    unfolding j by (simp add: demo_env_def)
  from directory_entry_is_counted_failure[of demo_env demo_world0 "''/tmp/images''"
      "''/tmp/small''" ?w1 ?names "''d.jpg''" ?stays 160,
      OF demo_world0_prepared(3) demo_world0_prepared(1) demo_world0_prepared(2) n x nf p s1 s2 s3]
  have "(''/tmp/images/d.jpg'', ''/tmp/small/d.jpg'')
        \<in> set (build_file_pair_list demo_env ?w1 ''/tmp/images'' ''/tmp/small'' ?names [])
   \<and> (\<exists>w2 evs ok_cnt fail_cnt.
         resize_image_dir demo_env demo_world0 ''/tmp/images'' ''/tmp/small'' 160 =
           (Inr True, w2,
            evs @ [Print (''finished, ok = '' @ str_nat ok_cnt @ '', fail = '' @ str_nat fail_cnt)])
         \<and> Print ''file not exist: /tmp/images/d.jpg'' \<in> set evs
         \<and> 1 \<le> fail_cnt)"
    unfolding j by (simp only: append.simps)
  then show ?thesis using d x by blast
qed

text \<open>
  A subdirectory named \<^verbatim>\<open>.jpg\<close> has a name that ends in \<^verbatim>\<open>.jpg\<close> and no file at its
  destination, but \<^verbatim>\<open>splitext\<close> gives it no extension (a leading dot does not start
  one): no work item is created for it.
\<close>

theorem hidden_directory_counterexample:
  "drop (length ''.jpg'' - 4) ''.jpg'' = ''.jpg''
   \<and> os_isdir demo_env demo_world0 (join ''/tmp/images'' ''.jpg'')
   \<and> \<not> os_isfile demo_env demo_world0 (join ''/tmp/small'' ''.jpg'')
   \<and> (join ''/tmp/images'' ''.jpg'', join ''/tmp/small'' ''.jpg'')
        \<notin> set (build_file_pair_list demo_env demo_world0 ''/tmp/images'' ''/tmp/small''
                 [''a.jpg'', ''b.png'', ''notes.txt'', ''c.jpeg'', ''d.jpg'', ''.jpg'', ''e.JPG''] [])
   \<and> snd (splitext ''.jpg'') = []"
  by code_simp

end
